theory Spec2Isabelle
  imports
    Main
    "HOL-Library.Sublist"
    "HOL-Library.List_Lexorder"
    "HOL-Library.Char_ord"
    "HOL-Library.Monad_Syntax"
    "HOL-Library.AList"
begin

section \<open>The global package cache (langserver/internal/cache/cache.go)\<close>

text \<open>
  Conventions of the embedding.
  \<^item> A Go pointer that may be \<open>nil\<close> is an \<open>option\<close>: \<open>None\<close> is \<open>nil\<close>. The receiver
    \<open>c *GlobalCache\<close> of every method is a \<open>GlobalCache option\<close>; a method that mutates the
    cache returns the receiver with its new contents.
  \<^item> A Go map is a HOL map; reading an absent key of a map of pointers gives \<open>nil\<close>.
  \<^item> A call that does not return normally (it blocks on a lock for ever, it recurses
    without end, or the runtime aborts the process) has the value \<open>None\<close> of an outer
    \<open>option\<close>; \<open>Some r\<close> is a normal return with result \<open>r\<close>.
  \<^item> Go compares strings byte by byte, which is the lexicographic order of \<open>char list\<close>.
\<close>

subsection \<open>Data\<close>

text \<open>\<open>time.Time\<close>; the zero value \<open>time.Time{}\<close> is \<open>zeroTime\<close>.\<close>

type_synonym Time = nat

definition zeroTime :: Time where
  "zeroTime = 0"

text \<open>
  The struct \<open>Package\<close> of the cache. The fields \<open>id\<close> and \<open>imports\<close> are written
  \<open>id'\<close> and \<open>imports'\<close>. The loader's payload (\<open>syntax\<close>, \<open>errors\<close>, \<open>types\<close>,
  \<open>typesInfo\<close>, \<open>fset\<close>) is copied by \<open>create\<close> and never read in cache.go; it is left out.
  \<open>imports\<close> is a \<open>map[string]*Package\<close>, kept as an association list updated by key.
  A package is written to only while it is being built by \<open>recusiveAdd\<close>, before it is
  stored, so values stand for the pointers.
\<close>

datatype Package = Package
  (name: string)
  (id': string)
  (pkgPath: string)
  (files: "string list")
  (imports': "(string \<times> Package) list")

record GlobalPackage =
  pkg :: Package
  modTime :: Time

text \<open>The methods of \<open>*GlobalPackage\<close>, both tolerating a \<open>nil\<close> receiver.\<close>

definition Package_of :: "GlobalPackage option \<Rightarrow> Package option" where
  "Package_of p = (case p of None \<Rightarrow> None | Some gp \<Rightarrow> Some (pkg gp))"

definition ModTime :: "GlobalPackage option \<Rightarrow> Time" where
  "ModTime p = (case p of None \<Rightarrow> zeroTime | Some gp \<Rightarrow> modTime gp)"

text \<open>
  \<open>sync.RWMutex\<close>: whether a writer holds it, and how many readers do. \<open>Lock\<close> waits
  until nobody holds the mutex, \<open>RLock\<close> until no writer does; in a sequential run a
  call that has to wait never returns. Unlocking a mutex that is not locked is a fatal
  error of the Go runtime.
\<close>

record RWMutex =
  writer :: bool
  readers :: nat

definition mutex0 :: RWMutex where
  "mutex0 = \<lparr>writer = False, readers = 0\<rparr>"

definition mu_Lock :: "RWMutex \<Rightarrow> RWMutex option" where
  "mu_Lock m = (if writer m \<or> readers m \<noteq> 0 then None else Some (m\<lparr>writer := True\<rparr>))"

definition mu_Unlock :: "RWMutex \<Rightarrow> RWMutex option" where
  "mu_Unlock m = (if writer m then Some (m\<lparr>writer := False\<rparr>) else None)"

definition mu_RLock :: "RWMutex \<Rightarrow> RWMutex option" where
  "mu_RLock m = (if writer m then None else Some (m\<lparr>readers := readers m + 1\<rparr>))"

definition mu_RUnlock :: "RWMutex \<Rightarrow> RWMutex option" where
  "mu_RUnlock m = (if readers m = 0 then None else Some (m\<lparr>readers := readers m - 1\<rparr>))"

text \<open>
  The struct \<open>GlobalCache\<close>. \<open>NewCache\<close> is its one constructor in the source and
  allocates the three maps; a \<open>GlobalCache\<close> whose maps are \<open>nil\<close> is not modelled.
\<close>

record GlobalCache =
  mu :: RWMutex
  idMap :: "string \<rightharpoonup> GlobalPackage"
  pathMap :: "string \<rightharpoonup> GlobalPackage"
  fileMap :: "string \<rightharpoonup> GlobalPackage"

definition NewCache :: "GlobalCache option" where
  "NewCache = Some \<lparr>mu = mutex0, idMap = Map.empty, pathMap = Map.empty, fileMap = Map.empty\<rparr>"

subsection \<open>Helpers the cache imports\<close>

definition toLower :: "char \<Rightarrow> char" where
  "toLower ch =
     (case map_of (zip ''ABCDEFGHIJKLMNOPQRSTUVWXYZ'' ''abcdefghijklmnopqrstuvwxyz'') ch of
        None \<Rightarrow> ch
      | Some l \<Rightarrow> l)"

text \<open>
  Modelled from the spec: \<open>util.LowerDriver\<close> (package langserver/internal/util) is not
  among the sources. The spec says of the path given to the file index: "file path
  comparison is case-normalized (lower-cased) to tolerate case-insensitive filesystems".
  The whole path is lower-cased, letter by letter.
\<close>

definition LowerDriver :: "string \<Rightarrow> string" where
  "LowerDriver path = map toLower path"

text \<open>
  The file system as \<open>os.Stat\<close> sees it: the modification time of a path, or \<open>None\<close>
  when \<open>os.Stat\<close> returns an error.
\<close>

type_synonym FileSystem = "string \<Rightarrow> Time option"

definition getPackageModTime :: "FileSystem \<Rightarrow> Package option \<Rightarrow> Time" where
  "getPackageModTime fs p =
     (case p of
        None \<Rightarrow> zeroTime
      | Some q \<Rightarrow>
          (case files q of
             [] \<Rightarrow> zeroTime
           | dir # _ \<Rightarrow> (case fs dir of None \<Rightarrow> zeroTime | Some t \<Rightarrow> t)))"

subsection \<open>The unexported operations\<close>

definition delete :: "GlobalCache option \<Rightarrow> string \<Rightarrow> GlobalCache option" where
  "delete c i =
     (case c of
        None \<Rightarrow> None
      | Some g \<Rightarrow>
          (case idMap g i of
             None \<Rightarrow> c
           | Some p \<Rightarrow>
               Some (fold (\<lambda>file g'. g'\<lparr>fileMap := (fileMap g')(LowerDriver file := None)\<rparr>)
                       (files (pkg p))
                       (g\<lparr>idMap := (idMap g)(i := None),
                          pathMap := (pathMap g)(pkgPath (pkg p) := None)\<rparr>))))"

text \<open>\<open>put\<close> takes a non-nil \<open>*Package\<close>: it reads \<open>pkg.id\<close> on every path.\<close>

definition put :: "FileSystem \<Rightarrow> GlobalCache option \<Rightarrow> Package \<Rightarrow> GlobalCache option" where
  "put fs c q =
     (case c of
        None \<Rightarrow> None
      | Some _ \<Rightarrow>
          (let c1 = delete c (id' q);
               p = \<lparr>pkg = q, modTime = getPackageModTime fs (Some q)\<rparr>;
               c2 = map_option (\<lambda>g. g\<lparr>idMap := (idMap g)(id' q \<mapsto> p)\<rparr>) c1;
               c3 = map_option (\<lambda>g. g\<lparr>pathMap := (pathMap g)(pkgPath q \<mapsto> p)\<rparr>) c2
           in fold (\<lambda>file. map_option (\<lambda>g. g\<lparr>fileMap := (fileMap g)(LowerDriver file \<mapsto> p)\<rparr>))
                (files q) c3))"

definition get :: "GlobalCache option \<Rightarrow> string \<Rightarrow> Package option" where
  "get c i = (case c of None \<Rightarrow> None | Some g \<Rightarrow> Package_of (idMap g i))"

subsection \<open>The lock methods\<close>

definition RLock :: "GlobalCache option \<Rightarrow> GlobalCache option option" where
  "RLock c =
     (case c of
        None \<Rightarrow> Some None
      | Some g \<Rightarrow> do { m \<leftarrow> mu_RLock (mu g); Some (Some (g\<lparr>mu := m\<rparr>)) })"

definition RUnlock :: "GlobalCache option \<Rightarrow> GlobalCache option option" where
  "RUnlock c =
     (case c of
        None \<Rightarrow> Some None
      | Some g \<Rightarrow> do { m \<leftarrow> mu_RUnlock (mu g); Some (Some (g\<lparr>mu := m\<rparr>)) })"

definition Lock :: "GlobalCache option \<Rightarrow> GlobalCache option option" where
  "Lock c =
     (case c of
        None \<Rightarrow> Some None
      | Some g \<Rightarrow> do { m \<leftarrow> mu_Lock (mu g); Some (Some (g\<lparr>mu := m\<rparr>)) })"

definition Unlock :: "GlobalCache option \<Rightarrow> GlobalCache option option" where
  "Unlock c =
     (case c of
        None \<Rightarrow> Some None
      | Some g \<Rightarrow> do { m \<leftarrow> mu_Unlock (mu g); Some (Some (g\<lparr>mu := m\<rparr>)) })"

subsection \<open>The operations under the lock\<close>

text \<open>
  \<open>clean\<close> takes the exclusive lock once and deletes every id of the list; an empty
  list returns before the lock is taken.
\<close>

definition clean :: "GlobalCache option \<Rightarrow> string list \<Rightarrow> GlobalCache option option" where
  "clean c idList =
     (case c of
        None \<Rightarrow> Some None
      | Some _ \<Rightarrow>
          if length idList = 0 then Some c
          else do {
            c1 \<leftarrow> Lock c;
            Unlock (fold (\<lambda>i c'. delete c' i) idList c1)
          })"

text \<open>\<open>Get\<close> and \<open>GetByURI\<close> return what they looked up; they leave the cache as it was.\<close>

definition Get :: "GlobalCache option \<Rightarrow> string \<Rightarrow> GlobalPackage option option" where
  "Get c path =
     (case c of
        None \<Rightarrow> Some None
      | Some _ \<Rightarrow> do {
          c1 \<leftarrow> RLock c;
          let p = (case c1 of None \<Rightarrow> None | Some g \<Rightarrow> pathMap g path);
          _ \<leftarrow> RUnlock c1;
          Some p
        })"

definition Put :: "FileSystem \<Rightarrow> GlobalCache option \<Rightarrow> Package \<Rightarrow> GlobalCache option option" where
  "Put fs c q =
     (case c of
        None \<Rightarrow> Some None
      | Some _ \<Rightarrow> do {
          c1 \<leftarrow> Lock c;
          Unlock (put fs c1 q)
        })"

definition Delete :: "GlobalCache option \<Rightarrow> string \<Rightarrow> GlobalCache option option" where
  "Delete c i =
     (case c of
        None \<Rightarrow> Some None
      | Some _ \<Rightarrow> do {
          c1 \<leftarrow> Lock c;
          Unlock (delete c1 i)
        })"

definition GetByURI :: "GlobalCache option \<Rightarrow> string \<Rightarrow> Package option option" where
  "GetByURI c filename =
     (case c of
        None \<Rightarrow> Some None
      | Some _ \<Rightarrow> do {
          c1 \<leftarrow> RLock c;
          let p = (case c1 of None \<Rightarrow> None | Some g \<Rightarrow> fileMap g (LowerDriver filename));
          _ \<leftarrow> RUnlock c1;
          Some (Package_of p)
        })"

subsection \<open>Walk\<close>

text \<open>\<open>strings.HasPrefix\<close> and \<open>strings.Contains\<close>.\<close>

definition HasPrefix :: "string \<Rightarrow> string \<Rightarrow> bool" where
  "HasPrefix s p = prefix p s"

fun Contains :: "string \<Rightarrow> string \<Rightarrow> bool" where
  "Contains [] sub = (sub = [])"
| "Contains (x # xs) sub = (prefix sub (x # xs) \<or> Contains xs sub)"

text \<open>
  The closure \<open>getRank\<close> of \<open>Walk\<close>: the loop over \<open>ranks\<close> from index \<open>i\<close>, then the
  test for a dot.
\<close>

fun getRank_from :: "nat \<Rightarrow> string list \<Rightarrow> string \<Rightarrow> nat" where
  "getRank_from i [] ident = (if Contains ident ''.'' then i else i + 1)"
| "getRank_from i (r # rs) ident =
     (if HasPrefix ident r then i else getRank_from (i + 1) rs ident)"

definition getRank :: "string list \<Rightarrow> string \<Rightarrow> nat" where
  "getRank ranks ident = getRank_from 0 ranks ident"

text \<open>The comparison closure given to \<open>sort.Slice\<close>, on the two elements compared.\<close>

definition less_id :: "string list \<Rightarrow> string \<Rightarrow> string \<Rightarrow> bool" where
  "less_id ranks a b =
     (let r1 = getRank ranks a; r2 = getRank ranks b
      in if r1 < r2 then True else if r1 = r2 then a \<le> b else False)"

text \<open>
  \<open>sort.Slice\<close> belongs to Go's standard library. It is a comparison sort and makes no
  promise about elements that compare equal. The ids it sorts here are the keys of a
  map, hence distinct, and on distinct ids \<open>less_id\<close> is a strict linear order, for
  which every comparison sort returns the same list. Insertion sort with the same
  comparison stands for it.
\<close>

fun insert_Slice :: "('a \<Rightarrow> 'a \<Rightarrow> bool) \<Rightarrow> 'a \<Rightarrow> 'a list \<Rightarrow> 'a list" where
  "insert_Slice lt x [] = [x]"
| "insert_Slice lt x (y # ys) =
     (if lt x y then x # y # ys else y # insert_Slice lt x ys)"

definition sort_Slice :: "('a \<Rightarrow> 'a \<Rightarrow> bool) \<Rightarrow> 'a list \<Rightarrow> 'a list" where
  "sort_Slice lt xs = foldr (insert_Slice lt) xs []"

text \<open>
  A \<open>source.WalkFunc\<close> is a closure \<open>func(Package) error\<close>; it may keep state of its own,
  of type \<open>'s\<close>, and \<open>None\<close> is the \<open>nil\<close> error.
\<close>

type_synonym ('e, 's) WalkFunc = "Package option \<Rightarrow> 's \<Rightarrow> 'e option \<times> 's"

fun walk :: "GlobalCache option \<Rightarrow> string list \<Rightarrow> ('e, 's) WalkFunc \<Rightarrow> 's \<Rightarrow> 'e option \<times> 's" where
  "walk c [] walkFunc s = (None, s)"
| "walk c (i # idList) walkFunc s =
     (case walkFunc (get c i) s of
        (Some err, s') \<Rightarrow> (Some err, s')
      | (None, s') \<Rightarrow> walk c idList walkFunc s')"

text \<open>
  Go leaves the order in which \<open>range c.idMap\<close> yields the keys open. \<open>Walk\<close> takes it
  as the argument \<open>iter\<close>: the keys of \<open>idMap\<close>, each once, in the order of this run.
\<close>

definition Walk ::
  "GlobalCache option \<Rightarrow> ('e, 's) WalkFunc \<Rightarrow> string list \<Rightarrow> string list \<Rightarrow> 's \<Rightarrow> ('e option \<times> 's) option"
where
  "Walk c walkFunc ranks iter s =
     (case c of
        None \<Rightarrow> Some (None, s)
      | Some _ \<Rightarrow> do {
          c1 \<leftarrow> RLock c;
          let idList = sort_Slice (less_id ranks) iter;
          let r = walk c1 idList walkFunc s;
          _ \<leftarrow> RUnlock c1;
          Some r
        })"

subsection \<open>Add\<close>

text \<open>
  The input of \<open>Add\<close> is a graph of \<open>packages.Package\<close> structs linked by pointers, so it
  may share nodes and may contain cycles. It is a heap from addresses to nodes; a
  \<open>*packages.Package\<close> is an address, and an address outside the heap is \<open>nil\<close>.
  \<open>Imports\<close> is a \<open>map[string]*packages.Package\<close>; the list gives the order in which
  the loop of \<open>recusiveAdd\<close> meets its entries.
\<close>

record PkgNode =
  Name :: string
  ID :: string
  PkgPath :: string
  CompiledGoFiles :: "string list"
  Imports :: "(string \<times> nat) list"

type_synonym PkgHeap = "nat \<rightharpoonup> PkgNode"

definition create :: "PkgNode \<Rightarrow> Package" where
  "create n = Package (Name n) (ID n) (PkgPath n) (CompiledGoFiles n) []"

text \<open>The assignment \<open>parent.imports[k] = v\<close>.\<close>

definition set_import :: "string \<Rightarrow> Package \<Rightarrow> Package \<Rightarrow> Package" where
  "set_import k v parent =
     Package (name parent) (id' parent) (pkgPath parent) (files parent)
       (AList.update k v (imports' parent))"

text \<open>A \<open>for\<close> loop over a list whose body may fail to return.\<close>

fun forEach :: "('a \<Rightarrow> 's \<Rightarrow> 's option) \<Rightarrow> 'a list \<Rightarrow> 's \<Rightarrow> 's option" where
  "forEach body [] s = Some s"
| "forEach body (x # xs) s = (case body x s of None \<Rightarrow> None | Some s' \<Rightarrow> forEach body xs s')"

lemma forEach_mono [partial_function_mono]:
  assumes "\<And>x s. mono_option (\<lambda>g. F g x s)"
  shows "mono_option (\<lambda>g. forEach (F g) xs s)"
proof (induction xs arbitrary: s)
  case Nil
  show ?case by (simp add: option.const_mono)
next
  case (Cons x xs)
  have "mono_option (\<lambda>g. Option.bind (F g x s) (\<lambda>s'. forEach (F g) xs s'))"
    by (rule bind_mono) (rule assms, rule Cons.IH)
  moreover have "\<And>g. forEach (F g) (x # xs) s = Option.bind (F g x s) (\<lambda>s'. forEach (F g) xs s')"
    by (simp split: option.splits)
  ultimately show ?case by simp
qed

text \<open>
  \<open>recusiveAdd\<close> returns the cache and the parent, both as the call leaves them. It
  dereferences \<open>c\<close> and \<open>pkg\<close> without a check, so a \<open>nil\<close> there aborts. The loop
  over the imports hands the cache and the package \<open>p\<close> under construction from one
  call to the next; the calls write into \<open>p.imports\<close>, and \<open>p\<close> is stored by \<open>put\<close> only
  after the loop. The recursion follows the pointers of the heap and need not end:
  the function is partial, and \<open>None\<close> is a call that never returns.
\<close>

partial_function (option) recusiveAdd ::
  "FileSystem \<Rightarrow> PkgHeap \<Rightarrow> GlobalCache option \<Rightarrow> nat \<Rightarrow> Package option
     \<Rightarrow> (GlobalCache option \<times> Package option) option"
where
  "recusiveAdd fs h c a parent =
     (case c of
        None \<Rightarrow> None
      | Some g \<Rightarrow>
          (case h a of
             None \<Rightarrow> None
           | Some n \<Rightarrow>
               (case idMap g (ID n) of
                  Some p \<Rightarrow> Some (c, map_option (set_import (PkgPath n) (pkg p)) parent)
                | None \<Rightarrow>
                    Option.bind
                      (forEach (\<lambda>ip st. recusiveAdd fs h (fst st) ip (snd st))
                         (map snd (Imports n)) (c, Some (create n)))
                      (\<lambda>st. case snd st of
                               None \<Rightarrow> None
                             | Some p \<Rightarrow>
                                 Some (put fs (fst st) p,
                                       map_option (set_import (pkgPath p) p) parent)))))"

definition Add :: "FileSystem \<Rightarrow> PkgHeap \<Rightarrow> GlobalCache option \<Rightarrow> nat \<Rightarrow> GlobalCache option option" where
  "Add fs h c a =
     (case c of
        None \<Rightarrow> (case h a of None \<Rightarrow> None | Some _ \<Rightarrow> Some None)
      | Some _ \<Rightarrow> do {
          c1 \<leftarrow> Lock c;
          st \<leftarrow> recusiveAdd fs h c1 a None;
          Unlock (fst st)
        })"

section \<open>The request handler (langserver/handler.go, langserver/handler_common.go)\<close>

subsection \<open>Errors, requests, connections\<close>

text \<open>
  The error values the handler returns or logs. \<open>OtherError\<close> stands for the errors of
  \<open>json.Unmarshal\<close>, of \<open>doInit\<close> and of the method handlers, which live outside these
  sources. \<open>PanicError m v\<close> is the error that \<open>util.Panicf\<close> makes of the panic value \<open>v\<close>
  recovered while the method \<open>m\<close> was served.
\<close>

datatype error =
  errLanguageServerMustBeInitialized
  | errLanguageServerAlreadyInitialized
  | errLanguageServerIsShuttingDown
  | errLanguageServerAlreadyShutdown
  | errCodeInvalidParams
  | CodeMethodNotFound string
  | PanicError string string
  | OtherError string

text \<open>A \<open>jsonrpc2.ID\<close> and a \<open>jsonrpc2.Request\<close>; \<open>Params\<close> is the raw JSON, \<open>None\<close> when absent.\<close>

datatype ReqID = Num nat | Str string

record Request =
  Method :: string
  Params :: "string option"
  ID' :: ReqID
  Notif :: bool

text \<open>
  The \<open>conn\<close> argument is a \<open>jsonrpc2.JSONRPC2\<close>: a \<open>*jsonrpc2.Conn\<close>, open or closed, or
  some other implementation of the interface.
\<close>

datatype Conn = JsonConn bool | OtherConn

definition Close :: "Conn \<Rightarrow> Conn" where
  "Close conn = (case conn of JsonConn _ \<Rightarrow> JsonConn True | OtherConn \<Rightarrow> OtherConn)"

text \<open>What a handler hands back: \<open>InitializeResult\<close> with its fixed capabilities, or a payload.\<close>

datatype result = InitializeResult | Payload string

text \<open>A call into code outside these sources returns or panics with a value.\<close>

datatype 'a outcome = Returns 'a | Panics string

subsection \<open>The handler's state\<close>

text \<open>
  \<open>LangHandler\<close> with the embedded \<open>HandlerCommon\<close>: \<open>shutdown\<close>; \<open>init\<close>, the parameters of
  the \<open>initialize\<close> request, \<open>None\<close> before it; \<open>cancel\<close>, the registry of requests in
  flight, \<open>None\<close> before \<open>doInit\<close>; \<open>ext\<close>, all that \<open>doInit\<close> and the method handlers keep
  (project, overlay, config); \<open>logged\<close>, what the server wrote with \<open>log.Println\<close>. The
  two mutexes are taken and released within straight-line code and are left out.
\<close>

record 'x LangHandler =
  shutdown :: bool
  init :: "string option"
  cancel :: "ReqID set option"
  ext :: 'x
  logged :: "error list"

text \<open>
  The code outside these sources that \<open>Handle\<close> calls: \<open>json.Unmarshal\<close> of the parameters
  of a method (\<open>None\<close> is success), the request id that the parameters of
  \<open>$/cancelRequest\<close> name (\<open>None\<close> when they do not decode), the part of \<open>doInit\<close> that
  builds the project and may fail, and the handlers of the methods.
\<close>

record 'x External =
  unmarshal :: "string \<Rightarrow> string \<Rightarrow> error option"
  cancel_target :: "string \<Rightarrow> ReqID option"
  project_Init :: "string \<Rightarrow> 'x \<Rightarrow> error option outcome \<times> 'x"
  handler :: "Request \<Rightarrow> 'x \<Rightarrow> (result option \<times> error option) outcome \<times> 'x"

text \<open>
  Modelled from the spec: \<open>util.Panicf\<close> (package langserver/internal/util) is not among
  the sources. The spec says that a failure during dispatch is "caught at the dispatch
  boundary, tagged with the method name that produced it, and converted into a normal
  error response". \<open>Panicf\<close> of what \<open>recover()\<close> gave, \<open>None\<close> when nothing panicked, and
  the method name is \<open>nil\<close> or the tagged error.
\<close>

definition Panicf :: "string option \<Rightarrow> string \<Rightarrow> error option" where
  "Panicf r m = (case r of None \<Rightarrow> None | Some v \<Rightarrow> Some (PanicError m v))"

text \<open>
  Modelled from the spec: the cancellation registry (cancel.go) is not among the
  sources. The spec says that a request is registered under its id before its handler
  runs and deregistered when the handler returns, and that cancelling an id that is
  not registered does nothing.
\<close>

definition NewCancel :: "ReqID set" where
  "NewCancel = {}"

definition WithCancel :: "ReqID set \<Rightarrow> ReqID \<Rightarrow> ReqID set" where
  "WithCancel reg i = insert i reg"

definition cancel_done :: "ReqID set \<Rightarrow> ReqID \<Rightarrow> ReqID set" where
  "cancel_done reg i = reg - {i}"

definition Cancel :: "ReqID set \<Rightarrow> ReqID \<Rightarrow> ReqID set" where
  "Cancel reg i = reg - {i}"

subsection \<open>HandlerCommon\<close>

definition ShutDown :: "'x LangHandler \<Rightarrow> 'x LangHandler" where
  "ShutDown h =
     (let h1 = (if shutdown h then h\<lparr>logged := logged h @ [errLanguageServerAlreadyShutdown]\<rparr> else h)
      in h1\<lparr>shutdown := True\<rparr>)"

definition CheckReady :: "'x LangHandler \<Rightarrow> error option" where
  "CheckReady h = (if shutdown h then Some errLanguageServerIsShuttingDown else None)"

subsection \<open>Handle\<close>

text \<open>
  \<open>doInit\<close> stores the parameters and a fresh registry, then builds the project; the
  fields stay set when the project fails to initialise.
\<close>

definition doInit :: "'x External \<Rightarrow> 'x LangHandler \<Rightarrow> string \<Rightarrow> error option outcome \<times> 'x LangHandler" where
  "doInit e h params =
     (let h1 = h\<lparr>init := Some params, cancel := Some NewCancel\<rparr>;
          (r, x) = project_Init e params (ext h1)
      in (r, h1\<lparr>ext := x\<rparr>))"

text \<open>
  The methods whose case of the \<open>switch\<close> is: no parameters, \<open>errCodeInvalidParams\<close>;
  parameters that do not decode, that error; otherwise the method's handler.
\<close>

definition param_methods :: "string list" where
  "param_methods =
     [''textDocument/hover'', ''textDocument/definition'', ''textDocument/typeDefinition'',
      ''textDocument/xdefinition'', ''textDocument/completion'', ''textDocument/references'',
      ''textDocument/implementation'', ''textDocument/documentSymbol'',
      ''textDocument/signatureHelp'', ''textDocument/formatting'',
      ''textDocument/rangeFormatting'', ''workspace/symbol'', ''workspace/xreferences'',
      ''textDocument/rename'', ''textDocument/codeAction'']"

definition file_methods :: "string list" where
  "file_methods =
     [''textDocument/didOpen'', ''textDocument/didChange'', ''textDocument/didClose'',
      ''textDocument/didSave'']"

text \<open>
  The \<open>switch\<close> on the method. It yields what the body returns or the value it panics
  with, and the handler and the connection as the body leaves them.
\<close>

definition dispatch ::
  "'x External \<Rightarrow> 'x LangHandler \<Rightarrow> Conn \<Rightarrow> Request \<Rightarrow> ReqID set option
     \<Rightarrow> (result option \<times> error option) outcome \<times> 'x LangHandler \<times> Conn"
where
  "dispatch e h conn req cancelManager =
     (if Method req = ''initialize'' then
        (if init h \<noteq> None then (Returns (None, Some errLanguageServerAlreadyInitialized), h, conn)
         else case Params req of
           None \<Rightarrow> (Returns (None, Some errCodeInvalidParams), h, conn)
         | Some raw \<Rightarrow>
             (case unmarshal e (Method req) raw of
                Some err \<Rightarrow> (Returns (None, Some err), h, conn)
              | None \<Rightarrow>
                  (case doInit e h raw of
                     (Returns (Some err), h') \<Rightarrow> (Returns (None, Some err), h', conn)
                   | (Returns None, h') \<Rightarrow> (Returns (Some InitializeResult, None), h', conn)
                   | (Panics v, h') \<Rightarrow> (Panics v, h', conn))))
      else if Method req = ''initialized'' then (Returns (None, None), h, conn)
      else if Method req = ''shutdown'' then (Returns (None, None), ShutDown h, conn)
      else if Method req = ''exit'' then (Returns (None, None), h, Close conn)
      else if Method req = ''$/cancelRequest'' then
        (case Params req of
           None \<Rightarrow> (Returns (None, None), h, conn)
         | Some raw \<Rightarrow>
             (case cancel_target e raw of
                None \<Rightarrow> (Returns (None, None), h, conn)
              | Some i \<Rightarrow>
                  (case cancelManager of
                     None \<Rightarrow> (Returns (None, None), h, conn)
                   | Some _ \<Rightarrow>
                       (Returns (None, None),
                        h\<lparr>cancel := map_option (\<lambda>reg. Cancel reg i) (cancel h)\<rparr>, conn))))
      else if Method req \<in> set param_methods then
        (case Params req of
           None \<Rightarrow> (Returns (None, Some errCodeInvalidParams), h, conn)
         | Some raw \<Rightarrow>
             (case unmarshal e (Method req) raw of
                Some err \<Rightarrow> (Returns (None, Some err), h, conn)
              | None \<Rightarrow>
                  (case handler e req (ext h) of
                     (r, x) \<Rightarrow> (r, h\<lparr>ext := x\<rparr>, conn))))
      else if Method req \<in> set file_methods then
        (case handler e req (ext h) of
           (Returns (_, err), x) \<Rightarrow> (Returns (None, err), h\<lparr>ext := x\<rparr>, conn)
         | (Panics v, x) \<Rightarrow> (Panics v, h\<lparr>ext := x\<rparr>, conn))
      else (Returns (None, Some (CodeMethodNotFound (Method req))), h, conn))"

text \<open>
  \<open>Handle\<close>. The deferred function that recovers a panic is registered first, so it
  runs last, after the deferred \<open>cancel()\<close>; when it recovers a panic the named result
  \<open>result\<close> is still \<open>nil\<close> and \<open>err\<close> becomes what \<open>Panicf\<close> returns. The two gates stand
  before the \<open>switch\<close>: a method other than \<open>initialize\<close> before initialisation, and
  \<open>CheckReady\<close>, whose error is dropped for \<open>exit\<close>.
\<close>

definition Handle ::
  "'x External \<Rightarrow> 'x LangHandler \<Rightarrow> Conn \<Rightarrow> Request
     \<Rightarrow> (result option \<times> error option) \<times> 'x LangHandler \<times> Conn"
where
  "Handle e h conn req =
     (let cancelManager = cancel h
      in if Method req \<noteq> ''initialize'' \<and> init h = None
         then ((None, Some errLanguageServerMustBeInitialized), h, conn)
         else case CheckReady h of
           Some err \<Rightarrow> ((None, if Method req = ''exit'' then None else Some err), h, conn)
         | None \<Rightarrow>
             (let registered = (cancelManager \<noteq> None \<and> \<not> Notif req);
                  h1 = (if registered
                        then h\<lparr>cancel := map_option (\<lambda>reg. WithCancel reg (ID' req)) (cancel h)\<rparr>
                        else h);
                  (out, h2, conn2) = dispatch e h1 conn req cancelManager;
                  h3 = (if registered
                        then h2\<lparr>cancel := map_option (\<lambda>reg. cancel_done reg (ID' req)) (cancel h2)\<rparr>
                        else h2)
              in case out of
                   Returns r \<Rightarrow> (r, h3, conn2)
                 | Panics v \<Rightarrow>
                     (case Panicf (Some v) (Method req) of
                        None \<Rightarrow> ((None, None), h3, conn2)
                      | Some perr \<Rightarrow> ((None, Some perr), h3, conn2))))"

section \<open>Predicates of the specification\<close>

text \<open>
  The three indices agree: a unit filed under an id is filed under its own id, under
  its canonical path and under each of its file paths (lower-cased), and an entry of
  the path index or of the file index is a unit of the id index filed under that key.
\<close>

definition consistent :: "GlobalCache \<Rightarrow> bool" where
  "consistent g \<longleftrightarrow>
     (\<forall>i p. idMap g i = Some p \<longrightarrow>
        id' (pkg p) = i \<and> pathMap g (pkgPath (pkg p)) = Some p
        \<and> (\<forall>f \<in> set (files (pkg p)). fileMap g (LowerDriver f) = Some p))
     \<and> (\<forall>k p. pathMap g k = Some p \<longrightarrow> pkgPath (pkg p) = k \<and> idMap g (id' (pkg p)) = Some p)
     \<and> (\<forall>k p. fileMap g k = Some p \<longrightarrow>
        k \<in> LowerDriver ` set (files (pkg p)) \<and> idMap g (id' (pkg p)) = Some p)"

text \<open>
  The canonical path and the file paths of \<open>q\<close> are free, or held by a unit with the
  id of \<open>q\<close>.
\<close>

definition no_clash :: "GlobalCache \<Rightarrow> Package \<Rightarrow> bool" where
  "no_clash g q \<longleftrightarrow>
     (case pathMap g (pkgPath q) of None \<Rightarrow> True | Some p \<Rightarrow> id' (pkg p) = id' q)
     \<and> list_all (\<lambda>f. case fileMap g (LowerDriver f) of None \<Rightarrow> True | Some p \<Rightarrow> id' (pkg p) = id' q)
          (files q)"

text \<open>
  The graph below the heap \<open>h\<close> has no cycle and no \<open>nil\<close> import: every import of a
  node is a node of the heap, of smaller rank under \<open>r\<close>.
\<close>

definition ranked :: "PkgHeap \<Rightarrow> (nat \<Rightarrow> nat) \<Rightarrow> bool" where
  "ranked h r \<longleftrightarrow>
     (\<forall>a n b. h a = Some n \<longrightarrow> b \<in> snd ` set (Imports n) \<longrightarrow> h b \<noteq> None \<and> r b < r a)"

text \<open>
  The path index files \<open>v\<close> under its canonical path and the file index files it
  under each of its file paths, lower-cased.
\<close>

definition filed :: "GlobalCache \<Rightarrow> Package \<Rightarrow> bool" where
  "filed g v \<longleftrightarrow>
     Package_of (pathMap g (pkgPath v)) = Some v
     \<and> (\<forall>f \<in> set (files v). Package_of (fileMap g (LowerDriver f)) = Some v)"

text \<open>
  The dependency map of \<open>p\<close> holds the imports \<open>bs\<close> and nothing else: its keys are the
  canonical paths of the nodes at \<open>bs\<close>, and the package under a key has the id of a
  node at \<open>bs\<close> with that path.
\<close>

definition wired :: "PkgHeap \<Rightarrow> nat list \<Rightarrow> Package \<Rightarrow> bool" where
  "wired h bs p \<longleftrightarrow>
     fst ` set (imports' p) = {PkgPath nb | b nb. b \<in> set bs \<and> h b = Some nb}
     \<and> (\<forall>k q. map_of (imports' p) k = Some q \<longrightarrow>
          (\<exists>b nb. b \<in> set bs \<and> h b = Some nb \<and> PkgPath nb = k \<and> id' q = ID nb))"



text \<open>
  The mutating operations as data, and a run of a list of them, one after the other,
  each under the lock it takes itself. A run does not return when one of its
  operations does not.
\<close>

datatype Op = OpAdd PkgHeap nat | OpPut Package | OpDelete string | OpClean "string list"

fun exec :: "FileSystem \<Rightarrow> GlobalCache option \<Rightarrow> Op \<Rightarrow> GlobalCache option option" where
  "exec fs c (OpAdd h a) = Add fs h c a"
| "exec fs c (OpPut q) = Put fs c q"
| "exec fs c (OpDelete i) = Delete c i"
| "exec fs c (OpClean idList) = clean c idList"

fun run :: "FileSystem \<Rightarrow> GlobalCache option \<Rightarrow> Op list \<Rightarrow> GlobalCache option option" where
  "run fs c [] = Some c"
| "run fs c (x # xs) = (case exec fs c x of None \<Rightarrow> None | Some c' \<Rightarrow> run fs c' xs)"




text \<open>
  The order of the visits: by ascending rank and, within a rank, by ascending id.
\<close>

definition rank_before :: "string list \<Rightarrow> string \<Rightarrow> string \<Rightarrow> bool" where
  "rank_before ranks a b \<longleftrightarrow>
     getRank ranks a < getRank ranks b \<or> (getRank ranks a = getRank ranks b \<and> a < b)"

section \<open>Concrete inputs\<close>

text \<open>A file system in which every \<open>os.Stat\<close> fails, and one that knows \<open>a.go\<close>.\<close>

definition fs_none :: FileSystem where
  "fs_none = (\<lambda>_. None)"

definition fs_a :: FileSystem where
  "fs_a = (\<lambda>_. None)(''a.go'' \<mapsto> 7)"

text \<open>The unit of the spec's scenario: id \<open>a\<close>, path \<open>pkg/a\<close>, one file \<open>a.go\<close>.\<close>

definition pkg_a :: Package where
  "pkg_a = Package ''a'' ''a'' ''pkg/a'' [''a.go''] []"

definition unit_a :: GlobalPackage where
  "unit_a = \<lparr>pkg = pkg_a, modTime = 0\<rparr>"

text \<open>The cache that holds this unit and nothing else, its lock free.\<close>

definition cache_a :: GlobalCache where
  "cache_a = \<lparr>mu = mutex0, idMap = [''a'' \<mapsto> unit_a], pathMap = [''pkg/a'' \<mapsto> unit_a],
     fileMap = [''a.go'' \<mapsto> unit_a]\<rparr>"

text \<open>A unit whose file path has capital letters, and a file system that also knows \<open>b.go\<close>.\<close>

definition pkg_src :: Package where
  "pkg_src = Package ''src'' ''src'' ''pkg/src'' [''/Src/a.go''] []"

definition fs_ab :: FileSystem where
  "fs_ab = (\<lambda>_. None)(''a.go'' \<mapsto> 7, ''b.go'' \<mapsto> 9)"




text \<open>The empty cache, as \<open>NewCache\<close> builds it.\<close>

definition cache_empty :: GlobalCache where
  "cache_empty = \<lparr>mu = mutex0, idMap = Map.empty, pathMap = Map.empty, fileMap = Map.empty\<rparr>"










text \<open>
  The four units of the spec's example of \<open>Walk\<close>, a cache that holds them, and one
  order in which Go may yield the keys of its id index.
\<close>

definition pkg_foo :: Package where
  "pkg_foo = Package ''foo'' ''myapp/foo'' ''myapp/foo'' [] []"

definition pkg_bar :: Package where
  "pkg_bar = Package ''bar'' ''myapp/bar'' ''myapp/bar'' [] []"

definition pkg_xy :: Package where
  "pkg_xy = Package ''y'' ''github.com/x/y'' ''github.com/x/y'' [] []"

definition pkg_fmt :: Package where
  "pkg_fmt = Package ''fmt'' ''fmt'' ''fmt'' [] []"

definition cache_four :: GlobalCache where
  "cache_four = \<lparr>mu = mutex0,
     idMap = [''myapp/foo'' \<mapsto> \<lparr>pkg = pkg_foo, modTime = 0\<rparr>,
              ''myapp/bar'' \<mapsto> \<lparr>pkg = pkg_bar, modTime = 0\<rparr>,
              ''github.com/x/y'' \<mapsto> \<lparr>pkg = pkg_xy, modTime = 0\<rparr>,
              ''fmt'' \<mapsto> \<lparr>pkg = pkg_fmt, modTime = 0\<rparr>],
     pathMap = [''myapp/foo'' \<mapsto> \<lparr>pkg = pkg_foo, modTime = 0\<rparr>,
              ''myapp/bar'' \<mapsto> \<lparr>pkg = pkg_bar, modTime = 0\<rparr>,
              ''github.com/x/y'' \<mapsto> \<lparr>pkg = pkg_xy, modTime = 0\<rparr>,
              ''fmt'' \<mapsto> \<lparr>pkg = pkg_fmt, modTime = 0\<rparr>],
     fileMap = Map.empty\<rparr>"

definition iter_four :: "string list" where
  "iter_four = [''github.com/x/y'', ''myapp/foo'', ''fmt'', ''myapp/bar'']"

text \<open>
  For the handler: the code outside in which every call succeeds, and the same with a
  hover handler that panics; a server before \<open>initialize\<close>, after it, and after
  \<open>shutdown\<close>; four requests.
\<close>

definition ext_ok :: "unit External" where
  "ext_ok = \<lparr>unmarshal = (\<lambda>_ _. None), cancel_target = (\<lambda>_. None),
     project_Init = (\<lambda>_ x. (Returns None, x)),
     handler = (\<lambda>req x. (Returns (Some (Payload (Method req)), None), x))\<rparr>"


definition server_new :: "unit LangHandler" where
  "server_new = \<lparr>shutdown = False, init = None, cancel = None, ext = (), logged = []\<rparr>"

definition server_ready :: "unit LangHandler" where
  "server_ready = \<lparr>shutdown = False, init = Some ''{}'', cancel = Some {}, ext = (), logged = []\<rparr>"

definition server_down :: "unit LangHandler" where
  "server_down = \<lparr>shutdown = True, init = Some ''{}'', cancel = Some {}, ext = (), logged = []\<rparr>"

definition req_exit :: Request where
  "req_exit = \<lparr>Method = ''exit'', Params = None, ID' = Num 0, Notif = True\<rparr>"

definition req_shutdown :: Request where
  "req_shutdown = \<lparr>Method = ''shutdown'', Params = None, ID' = Num 1, Notif = False\<rparr>"



text \<open>A graph of one node whose file path has capital letters.\<close>

definition node_src :: PkgNode where
  "node_src = \<lparr>Name = ''src'', ID = ''src'', PkgPath = ''pkg/src'',
     CompiledGoFiles = [''/Src/a.go''], Imports = []\<rparr>"

definition heap_src :: PkgHeap where
  "heap_src = [0 \<mapsto> node_src]"

section \<open>Basic facts\<close>

subsection \<open>The loops over the files, in closed form\<close>

lemma fold_fileMap_delete:
  "fold (\<lambda>file g'. g'\<lparr>fileMap := (fileMap g')(LowerDriver file := None)\<rparr>) fl g
     = g\<lparr>fileMap := (\<lambda>k. if k \<in> LowerDriver ` set fl then None else fileMap g k)\<rparr>"
proof (induction fl arbitrary: g)
  case Nil
  show ?case by simp
next
  case (Cons f fl)
  have m: "(\<lambda>k. if k \<in> LowerDriver ` set fl then None else ((fileMap g)(LowerDriver f := None)) k)
           = (\<lambda>k. if k \<in> LowerDriver ` set (f # fl) then None else fileMap g k)"
    by (auto simp: fun_eq_iff)
  have "fold (\<lambda>file g'. g'\<lparr>fileMap := (fileMap g')(LowerDriver file := None)\<rparr>) (f # fl) g
        = fold (\<lambda>file g'. g'\<lparr>fileMap := (fileMap g')(LowerDriver file := None)\<rparr>) fl
            (g\<lparr>fileMap := (fileMap g)(LowerDriver f := None)\<rparr>)"
    by simp
  also have "\<dots> = g\<lparr>fileMap := (\<lambda>k. if k \<in> LowerDriver ` set fl then None
                                     else ((fileMap g)(LowerDriver f := None)) k)\<rparr>"
    unfolding Cons.IH by (simp cong: if_cong)
  finally show ?case unfolding m .
qed

lemma fold_fileMap_put:
  "fold (\<lambda>file. map_option (\<lambda>g. g\<lparr>fileMap := (fileMap g)(LowerDriver file \<mapsto> p)\<rparr>)) fl (Some g)
     = Some (g\<lparr>fileMap := (\<lambda>k. if k \<in> LowerDriver ` set fl then Some p else fileMap g k)\<rparr>)"
proof (induction fl arbitrary: g)
  case Nil
  show ?case by simp
next
  case (Cons f fl)
  have m: "(\<lambda>k. if k \<in> LowerDriver ` set fl then Some p else ((fileMap g)(LowerDriver f \<mapsto> p)) k)
           = (\<lambda>k. if k \<in> LowerDriver ` set (f # fl) then Some p else fileMap g k)"
    by (auto simp: fun_eq_iff)
  have "fold (\<lambda>file. map_option (\<lambda>g. g\<lparr>fileMap := (fileMap g)(LowerDriver file \<mapsto> p)\<rparr>)) (f # fl) (Some g)
        = fold (\<lambda>file. map_option (\<lambda>g. g\<lparr>fileMap := (fileMap g)(LowerDriver file \<mapsto> p)\<rparr>)) fl
            (Some (g\<lparr>fileMap := (fileMap g)(LowerDriver f \<mapsto> p)\<rparr>))"
    by simp
  also have "\<dots> = Some (g\<lparr>fileMap := (\<lambda>k. if k \<in> LowerDriver ` set fl then Some p
                                     else ((fileMap g)(LowerDriver f \<mapsto> p)) k)\<rparr>)"
    unfolding Cons.IH by (simp cong: if_cong)
  finally show ?case unfolding m .
qed

lemma delete_absent: "idMap g i = None \<Longrightarrow> delete (Some g) i = Some g"
  by (simp add: delete_def)

lemma delete_present:
  "idMap g i = Some p \<Longrightarrow> delete (Some g) i =
     Some (g\<lparr>idMap := (idMap g)(i := None),
       pathMap := (pathMap g)(pkgPath (pkg p) := None),
       fileMap := (\<lambda>k. if k \<in> LowerDriver ` set (files (pkg p)) then None else fileMap g k)\<rparr>)"
  by (simp add: delete_def fold_fileMap_delete cong: if_cong)

lemma delete_Some_ex: "\<exists>g'. delete (Some g) i = Some g' \<and> mu g' = mu g"
  by (cases "idMap g i") (simp_all add: delete_absent delete_present)

lemma put_closed:
  "delete (Some g) (id' q) = Some g1 \<Longrightarrow>
   put fs (Some g) q =
     Some (g1\<lparr>idMap := (idMap g1)(id' q \<mapsto> \<lparr>pkg = q, modTime = getPackageModTime fs (Some q)\<rparr>),
            pathMap := (pathMap g1)(pkgPath q \<mapsto> \<lparr>pkg = q, modTime = getPackageModTime fs (Some q)\<rparr>),
            fileMap := (\<lambda>k. if k \<in> LowerDriver ` set (files q)
                             then Some \<lparr>pkg = q, modTime = getPackageModTime fs (Some q)\<rparr>
                             else fileMap g1 k)\<rparr>)"
  by (simp add: put_def Let_def fold_fileMap_put cong: if_cong)


lemma Lock_free: "mu g = mutex0 \<Longrightarrow> Lock (Some g) = Some (Some (g\<lparr>mu := \<lparr>writer = True, readers = 0\<rparr>\<rparr>))"
  by (simp add: Lock_def mu_Lock_def mutex0_def)

lemma Unlock_held: "writer (mu g) \<Longrightarrow> Unlock (Some g) = Some (Some (g\<lparr>mu := (mu g)\<lparr>writer := False\<rparr>\<rparr>))"
  by (simp add: Unlock_def mu_Unlock_def)

lemma RLock_free:
  "\<not> writer (mu g) \<Longrightarrow> RLock (Some g) = Some (Some (g\<lparr>mu := (mu g)\<lparr>readers := readers (mu g) + 1\<rparr>\<rparr>))"
  by (simp add: RLock_def mu_RLock_def)

lemma RUnlock_held:
  "readers (mu g) \<noteq> 0 \<Longrightarrow> RUnlock (Some g) = Some (Some (g\<lparr>mu := (mu g)\<lparr>readers := readers (mu g) - 1\<rparr>\<rparr>))"
  by (simp add: RUnlock_def mu_RUnlock_def)


subsection \<open>Operations on a cache whose lock is free\<close>

lemma put_Some_ex:
  "\<exists>g'. put fs (Some g) q = Some g' \<and> mu g' = mu g
      \<and> idMap g' (id' q) = Some \<lparr>pkg = q, modTime = getPackageModTime fs (Some q)\<rparr>
      \<and> pathMap g' (pkgPath q) = Some \<lparr>pkg = q, modTime = getPackageModTime fs (Some q)\<rparr>
      \<and> (\<forall>f \<in> set (files q). fileMap g' (LowerDriver f) = Some \<lparr>pkg = q, modTime = getPackageModTime fs (Some q)\<rparr>)"
proof -
  obtain g1 where g1: "delete (Some g) (id' q) = Some g1" "mu g1 = mu g"
    using delete_Some_ex by blast
  show ?thesis
    by (simp add: put_closed[OF g1(1)] g1(2))
qed

lemma Put_free:
  assumes "mu g = mutex0"
  shows "\<exists>g'. Put fs (Some g) q = Some (Some g') \<and> mu g' = mutex0
      \<and> put fs (Some (g\<lparr>mu := \<lparr>writer = True, readers = 0\<rparr>\<rparr>)) q = Some (g'\<lparr>mu := \<lparr>writer = True, readers = 0\<rparr>\<rparr>)
      \<and> idMap g' (id' q) = Some \<lparr>pkg = q, modTime = getPackageModTime fs (Some q)\<rparr>
      \<and> pathMap g' (pkgPath q) = Some \<lparr>pkg = q, modTime = getPackageModTime fs (Some q)\<rparr>
      \<and> (\<forall>f \<in> set (files q). fileMap g' (LowerDriver f) = Some \<lparr>pkg = q, modTime = getPackageModTime fs (Some q)\<rparr>)"
proof -
  let ?gl = "g\<lparr>mu := \<lparr>writer = True, readers = 0\<rparr>\<rparr>"
  obtain g1 where g1: "put fs (Some ?gl) q = Some g1" "mu g1 = mu ?gl"
    "idMap g1 (id' q) = Some \<lparr>pkg = q, modTime = getPackageModTime fs (Some q)\<rparr>"
    "pathMap g1 (pkgPath q) = Some \<lparr>pkg = q, modTime = getPackageModTime fs (Some q)\<rparr>"
    "\<forall>f \<in> set (files q). fileMap g1 (LowerDriver f) = Some \<lparr>pkg = q, modTime = getPackageModTime fs (Some q)\<rparr>"
    using put_Some_ex[of fs ?gl q] by blast
  have w: "writer (mu g1)" using g1(2) by simp
  have "Put fs (Some g) q = Some (Some (g1\<lparr>mu := (mu g1)\<lparr>writer := False\<rparr>\<rparr>))"
    by (simp add: Put_def Lock_free[OF assms] g1(1) Unlock_held[OF w])
  moreover have "g1\<lparr>mu := (mu g1)\<lparr>writer := False\<rparr>\<rparr>\<lparr>mu := \<lparr>writer = True, readers = 0\<rparr>\<rparr> = g1"
    using g1(2) by simp
  ultimately show ?thesis
    using g1 by (auto simp: mutex0_def)
qed

lemma GetByURI_free:
  "\<not> writer (mu g) \<Longrightarrow> GetByURI (Some g) filename = Some (Package_of (fileMap g (LowerDriver filename)))"
  by (simp add: GetByURI_def RLock_free RUnlock_held)

lemma Get_free:
  "\<not> writer (mu g) \<Longrightarrow> Get (Some g) path = Some (pathMap g path)"
  by (simp add: Get_def RLock_free RUnlock_held)

subsection \<open>The three indices under delete and put\<close>








subsection \<open>recusiveAdd\<close>

lemma recusiveAdd_hit:
  "h a = Some n \<Longrightarrow> idMap g (ID n) = Some p \<Longrightarrow>
   recusiveAdd fs h (Some g) a parent
     = Some (Some g, map_option (set_import (PkgPath n) (pkg p)) parent)"
  by (subst recusiveAdd.simps) simp

lemma recusiveAdd_miss:
  "h a = Some n \<Longrightarrow> idMap g (ID n) = None \<Longrightarrow>
   recusiveAdd fs h (Some g) a parent =
     Option.bind
       (forEach (\<lambda>ip st. recusiveAdd fs h (fst st) ip (snd st))
          (map snd (Imports n)) (Some g, Some (create n)))
       (\<lambda>st. case snd st of
                None \<Rightarrow> None
              | Some p \<Rightarrow> Some (put fs (fst st) p, map_option (set_import (pkgPath p) p) parent))"
  by (subst recusiveAdd.simps) simp

lemma recusiveAdd_nil_pkg: "h a = None \<Longrightarrow> recusiveAdd fs h c a parent = None"
  by (subst recusiveAdd.simps) (simp split: option.splits)

lemma forEach_prefix_invariant:
  assumes "forEach body xs s = Some s'"
    and "J pre s"
    and "\<And>pre' x t t'. J pre' t \<Longrightarrow> x \<in> set xs \<Longrightarrow> body x t = Some t' \<Longrightarrow> J (pre' @ [x]) t'"
  shows "J (pre @ xs) s'"
  using assms
proof (induction xs arbitrary: pre s)
  case Nil
  then show ?case by simp
next
  case (Cons x xs)
  from Cons.prems(1) obtain t where t: "body x s = Some t" "forEach body xs t = Some s'"
    by (auto split: option.splits)
  have "J (pre @ [x]) t"
    using Cons.prems(3)[OF Cons.prems(2) _ t(1)] by simp
  from Cons.IH[OF t(2) this] Cons.prems(3)
  show ?case by simp
qed

lemma forEach_total:
  assumes "J s"
    and "\<And>x t. x \<in> set xs \<Longrightarrow> J t \<Longrightarrow> \<exists>t'. body x t = Some t' \<and> J t'"
  shows "\<exists>s'. forEach body xs s = Some s' \<and> J s'"
  using assms
proof (induction xs arbitrary: s)
  case Nil
  then show ?case by simp
next
  case (Cons x xs)
  obtain t where t: "body x s = Some t" "J t"
    using Cons.prems(2)[of x s] Cons.prems(1) by auto
  have "\<exists>s'. forEach body xs t = Some s' \<and> J s'"
    by (rule Cons.IH[OF t(2)]) (use Cons.prems(2) in auto)
  then show ?case using t(1) by simp
qed

lemma set_import_sel [simp]:
  "name (set_import k v p) = name p"
  "id' (set_import k v p) = id' p"
  "pkgPath (set_import k v p) = pkgPath p"
  "files (set_import k v p) = files p"
  "imports' (set_import k v p) = AList.update k v (imports' p)"
  by (simp_all add: set_import_def)

lemma create_sel [simp]:
  "name (create n) = Name n"
  "id' (create n) = ID n"
  "pkgPath (create n) = PkgPath n"
  "files (create n) = CompiledGoFiles n"
  "imports' (create n) = []"
  by (simp_all add: create_def)

lemma wired_Nil: "wired h [] (create n)"
  by (simp add: wired_def)

lemma wired_step:
  assumes "wired h pre p" "h b = Some nb" "id' v = ID nb"
  shows "wired h (pre @ [b]) (set_import (PkgPath nb) v p)"
proof -
  have d: "fst ` set (imports' p) = {PkgPath nb | b nb. b \<in> set pre \<and> h b = Some nb}"
    and m: "\<And>k q. map_of (imports' p) k = Some q \<Longrightarrow>
          (\<exists>b nb. b \<in> set pre \<and> h b = Some nb \<and> PkgPath nb = k \<and> id' q = ID nb)"
    using assms(1) unfolding wired_def by blast+
  have 1: "fst ` set (imports' (set_import (PkgPath nb) v p))
      = {PkgPath nb' | b' nb'. b' \<in> set (pre @ [b]) \<and> h b' = Some nb'}"
    using assms(2) by (auto simp: dom_update d)
  have 2: "\<exists>b' nb'. b' \<in> set (pre @ [b]) \<and> h b' = Some nb' \<and> PkgPath nb' = k \<and> id' q = ID nb'"
    if "map_of (imports' (set_import (PkgPath nb) v p)) k = Some q" for k q
  proof (cases "k = PkgPath nb")
    case True
    then have "q = v" using that by (simp add: update_conv')
    then show ?thesis using assms(2,3) True by auto
  next
    case False
    then have "map_of (imports' p) k = Some q" using that by (simp add: update_conv')
    from m[OF this] show ?thesis by auto
  qed
  show ?thesis unfolding wired_def using 1 2 by blast
qed

lemma recusiveAdd_partial:
  assumes keys: "\<And>g i p. I g \<Longrightarrow> idMap g i = Some p \<Longrightarrow> id' (pkg p) = i"
    and step: "\<And>g0 g q g' n a. h a = Some n \<Longrightarrow> I g0 \<Longrightarrow> idMap g0 (ID n) = None \<Longrightarrow> I g
        \<Longrightarrow> id' q = ID n \<Longrightarrow> pkgPath q = PkgPath n \<Longrightarrow> files q = CompiledGoFiles n
        \<Longrightarrow> put fs (Some g) q = Some g' \<Longrightarrow> I g'"
    and run: "recusiveAdd fs h (Some g) a parent = Some y"
    and I: "I g"
  shows "\<exists>n g' v. h a = Some n
      \<and> y = (Some g', map_option (set_import (PkgPath n) v) parent)
      \<and> I g' \<and> mu g' = mu g \<and> id' v = ID n \<and> Package_of (idMap g' (ID n)) = Some v
      \<and> (idMap g (ID n) = None \<longrightarrow>
            name v = Name n \<and> pkgPath v = PkgPath n \<and> files v = CompiledGoFiles n
            \<and> wired h (map snd (Imports n)) v \<and> filed g' v)"
proof -
  have main: "fs0 = fs \<longrightarrow> h0 = h \<longrightarrow> (\<forall>g. c = Some g \<longrightarrow> I g \<longrightarrow>
      (\<exists>n g' v. h a = Some n
      \<and> y = (Some g', map_option (set_import (PkgPath n) v) parent)
      \<and> I g' \<and> mu g' = mu g \<and> id' v = ID n \<and> Package_of (idMap g' (ID n)) = Some v
      \<and> (idMap g (ID n) = None \<longrightarrow>
            name v = Name n \<and> pkgPath v = PkgPath n \<and> files v = CompiledGoFiles n
            \<and> wired h (map snd (Imports n)) v \<and> filed g' v)))"
    if "recusiveAdd fs0 h0 c a parent = Some y" for fs0 h0 c a parent y
    using that
  proof (induction rule: recusiveAdd.raw_induct[rotated 1, consumes 1, case_names body])
    case (body f fs0 h0 c a parent y)
    show ?case
    proof (intro impI allI)
      fix g assume eq: "fs0 = fs" "h0 = h" and c: "c = Some g" and Ig: "I g"
      from body.hyps c eq obtain n where n: "h a = Some n"
        by (cases "h a") auto
      show "\<exists>n g' v. h a = Some n
        \<and> y = (Some g', map_option (set_import (PkgPath n) v) parent)
        \<and> I g' \<and> mu g' = mu g \<and> id' v = ID n \<and> Package_of (idMap g' (ID n)) = Some v
        \<and> (idMap g (ID n) = None \<longrightarrow>
            name v = Name n \<and> pkgPath v = PkgPath n \<and> files v = CompiledGoFiles n
            \<and> wired h (map snd (Imports n)) v \<and> filed g' v)"
      proof (cases "idMap g (ID n)")
        case (Some p)
        then have "y = (Some g, map_option (set_import (PkgPath n) (pkg p)) parent)"
          using body.hyps c eq n by simp
        moreover have "id' (pkg p) = ID n" using keys[OF Ig Some] .
        ultimately show ?thesis
          using n Ig Some by (auto simp: Package_of_def)
      next
        case None
        let ?J = "\<lambda>pre t. \<exists>g1 p. t = (Some g1, Some p) \<and> I g1 \<and> mu g1 = mu g \<and> name p = Name n
            \<and> id' p = ID n \<and> pkgPath p = PkgPath n \<and> files p = CompiledGoFiles n \<and> wired h pre p"
        from body.hyps c eq n None obtain st where
          loop: "forEach (\<lambda>ip st. f fs h (fst st) ip (snd st)) (map snd (Imports n))
                   (Some g, Some (create n)) = Some st"
          and fin: "(case snd st of None \<Rightarrow> None
                     | Some p \<Rightarrow> Some (put fs (fst st) p,
                          map_option (set_import (pkgPath p) p) parent)) = Some y"
          by (auto simp: bind_eq_Some_conv)
        have J0: "?J [] (Some g, Some (create n))"
          using Ig by (simp add: wired_Nil)
        have Jstep: "?J (pre' @ [x]) t'"
          if "?J pre' t" "x \<in> set (map snd (Imports n))"
            "f fs h (fst t) x (snd t) = Some t'" for pre' x t t'
        proof -
          from that(1) obtain g1 p where t: "t = (Some g1, Some p)" "I g1" "mu g1 = mu g"
            "name p = Name n" "id' p = ID n" "pkgPath p = PkgPath n"
            "files p = CompiledGoFiles n" "wired h pre' p"
            by blast
          from body.IH[OF that(3)] t(1,2)
          obtain nb g' v where r: "h x = Some nb"
            "t' = (Some g', map_option (set_import (PkgPath nb) v) (Some p))"
            "I g'" "mu g' = mu g1" "id' v = ID nb"
            by (auto simp: eq)
          have "wired h (pre' @ [x]) (set_import (PkgPath nb) v p)"
            by (rule wired_step[OF t(8) r(1) r(5)])
          then show ?thesis using r t by simp
        qed
        have "?J ([] @ map snd (Imports n)) st"
          by (rule forEach_prefix_invariant[where J = ?J, OF loop J0 Jstep])
        then obtain g1 p where st: "st = (Some g1, Some p)" "I g1" "mu g1 = mu g"
            "name p = Name n" "id' p = ID n" "pkgPath p = PkgPath n"
            "files p = CompiledGoFiles n" "wired h (map snd (Imports n)) p"
          by auto
        obtain g' where g': "put fs (Some g1) p = Some g'" "mu g' = mu g1"
          "idMap g' (id' p) = Some \<lparr>pkg = p, modTime = getPackageModTime fs (Some p)\<rparr>"
          "pathMap g' (pkgPath p) = Some \<lparr>pkg = p, modTime = getPackageModTime fs (Some p)\<rparr>"
          "\<forall>f \<in> set (files p). fileMap g' (LowerDriver f)
              = Some \<lparr>pkg = p, modTime = getPackageModTime fs (Some p)\<rparr>"
          using put_Some_ex by blast
        have fl: "filed g' p"
          using g'(4,5) by (simp add: filed_def Package_of_def)
        have Ig': "I g'"
          by (rule step[OF n Ig None st(2) st(5) st(6) st(7) g'(1)])
        have y: "y = (Some g', map_option (set_import (PkgPath n) p) parent)"
          using fin st g'(1) by simp
        show ?thesis
          using n y Ig' g'(2,3) st fl by (auto simp: Package_of_def)
      qed
    qed
  qed
  from main[OF run] I show ?thesis by simp
qed

lemma recusiveAdd_terminates:
  assumes "ranked h r" and "h a = Some n"
  shows "\<exists>g' parent'. recusiveAdd fs h (Some g) a parent = Some (Some g', parent')
           \<and> (parent' = None \<longleftrightarrow> parent = None) \<and> mu g' = mu g"
  using assms(2)
proof (induction "r a" arbitrary: a n g parent rule: less_induct)
  case less
  show ?case
  proof (cases "idMap g (ID n)")
    case (Some p)
    show ?thesis
      using less.prems Some by (simp add: recusiveAdd_hit)
  next
    case None
    let ?J = "\<lambda>t. \<exists>g1 p. t = (Some g1, Some (p::Package)) \<and> mu g1 = mu g"
    have "\<exists>t'. recusiveAdd fs h (fst t) x (snd t) = Some t' \<and> ?J t'"
      if "x \<in> set (map snd (Imports n))" "?J t" for x t
    proof -
      from that(1) have "x \<in> snd ` set (Imports n)" by simp
      with assms(1) less.prems have "h x \<noteq> None" "r x < r a"
        unfolding ranked_def by blast+
      then obtain nb where nb: "h x = Some nb" by auto
      from that(2) obtain g1 p where t: "t = (Some g1, Some p)" "mu g1 = mu g" by blast
      from less.hyps[OF \<open>r x < r a\<close> nb, of g1 "Some p"]
      show ?thesis using t by auto
    qed
    from forEach_total[where J = ?J and body = "\<lambda>ip st. recusiveAdd fs h (fst st) ip (snd st)",
        OF _ this, of "(Some g, Some (create n))" "map snd (Imports n)"]
    obtain g1 p where loop: "forEach (\<lambda>ip st. recusiveAdd fs h (fst st) ip (snd st))
        (map snd (Imports n)) (Some g, Some (create n)) = Some (Some g1, Some p)"
      and m1: "mu g1 = mu g"
      by auto
    obtain g' where g': "put fs (Some g1) p = Some g'" "mu g' = mu g1"
      using put_Some_ex by blast
    show ?thesis
      using less.prems None by (simp add: recusiveAdd_miss loop g' m1)
  qed
qed


subsection \<open>Add on a cache whose lock is free\<close>

lemma delete_idMap: "delete (Some g) i = Some g' \<Longrightarrow> idMap g' = (idMap g)(i := None)"
  by (cases "idMap g i") (auto simp: delete_absent delete_present)

lemma put_idMap:
  assumes "put fs (Some g) q = Some g'"
  shows "idMap g' = (idMap g)(id' q \<mapsto> \<lparr>pkg = q, modTime = getPackageModTime fs (Some q)\<rparr>)"
proof -
  obtain g1 where g1: "delete (Some g) (id' q) = Some g1"
    using delete_Some_ex by blast
  have "Some g' = Some (g1\<lparr>idMap := (idMap g1)(id' q \<mapsto> \<lparr>pkg = q, modTime = getPackageModTime fs (Some q)\<rparr>),
            pathMap := (pathMap g1)(pkgPath q \<mapsto> \<lparr>pkg = q, modTime = getPackageModTime fs (Some q)\<rparr>),
            fileMap := (\<lambda>k. if k \<in> LowerDriver ` set (files q)
                             then Some \<lparr>pkg = q, modTime = getPackageModTime fs (Some q)\<rparr>
                             else fileMap g1 k)\<rparr>)"
    unfolding assms[symmetric] by (rule put_closed[OF g1])
  then have "idMap g' = (idMap g1)(id' q \<mapsto> \<lparr>pkg = q, modTime = getPackageModTime fs (Some q)\<rparr>)"
    by auto
  then show ?thesis by (simp add: delete_idMap[OF g1])
qed

lemma Add_free:
  "mu g = mutex0 \<Longrightarrow> Add fs h (Some g) a =
     (case recusiveAdd fs h (Some (g\<lparr>mu := \<lparr>writer = True, readers = 0\<rparr>\<rparr>)) a None of
        None \<Rightarrow> None
      | Some st \<Rightarrow> Unlock (fst st))"
  by (simp add: Add_def Lock_free split: option.splits)

lemma unlock_locked:
  "mu g1 = \<lparr>writer = True, readers = 0\<rparr> \<Longrightarrow>
   Unlock (Some g1) = Some (Some (g1\<lparr>mu := mutex0\<rparr>))"
  by (simp add: Unlock_held mutex0_def)

subsection \<open>The exported operations keep the three indices in agreement\<close>

lemma consistent_mu [simp]: "consistent (g\<lparr>mu := m\<rparr>) = consistent g"
  by (simp add: consistent_def)

lemma no_clash_mu [simp]: "no_clash (g\<lparr>mu := m\<rparr>) q = no_clash g q"
  by (simp add: no_clash_def)






subsection \<open>Concrete runs\<close>





lemma Add_returns:
  assumes "ranked h r" and "h a = Some n" and "mu g = mutex0"
  shows "\<exists>g'. Add fs h (Some g) a = Some (Some g') \<and> mu g' = mutex0"
proof -
  obtain g1 par where "recusiveAdd fs h (Some (g\<lparr>mu := \<lparr>writer = True, readers = 0\<rparr>\<rparr>)) a None
        = Some (Some g1, par)" "mu g1 = \<lparr>writer = True, readers = 0\<rparr>"
    using recusiveAdd_terminates[OF assms(1,2), of fs "g\<lparr>mu := \<lparr>writer = True, readers = 0\<rparr>\<rparr>" None]
    by auto
  then show ?thesis
    by (simp add: Add_free[OF assms(3)] unlock_locked)
qed




subsection \<open>Ranks, the sort and the walk\<close>

lemma Contains_dot: "Contains ident ''.'' \<longleftrightarrow> CHR ''.'' \<in> set ident"
  by (induction ident) auto

lemma getRank_from_match:
  "\<forall>x \<in> set pre. \<not> prefix x ident \<Longrightarrow> prefix r ident \<Longrightarrow>
   getRank_from i (pre @ r # post) ident = i + length pre"
  by (induction pre arbitrary: i) (simp_all add: HasPrefix_def)

lemma getRank_from_nomatch:
  "\<forall>x \<in> set rs. \<not> prefix x ident \<Longrightarrow>
   getRank_from i rs ident = (if CHR ''.'' \<in> set ident then i + length rs else i + length rs + 1)"
  by (induction rs arbitrary: i) (simp_all add: HasPrefix_def Contains_dot)

lemma set_insert_Slice: "set (insert_Slice lt x ys) = insert x (set ys)"
  by (induction ys) auto

lemma set_sort_Slice: "set (sort_Slice lt xs) = set xs"
  by (induction xs) (simp_all add: sort_Slice_def set_insert_Slice)

lemma distinct_insert_Slice: "distinct (insert_Slice lt x ys) \<longleftrightarrow> x \<notin> set ys \<and> distinct ys"
  by (induction ys) (auto simp: set_insert_Slice)

lemma distinct_sort_Slice: "distinct (sort_Slice lt xs) \<longleftrightarrow> distinct xs"
  by (induction xs) (simp_all add: sort_Slice_def distinct_insert_Slice set_sort_Slice[unfolded sort_Slice_def])

lemma sorted_insert_Slice:
  assumes tr: "\<And>a b c. lt a b \<Longrightarrow> lt b c \<Longrightarrow> lt a c"
    and tot: "\<And>a b. lt a b \<or> lt b a"
    and "sorted_wrt lt ys"
  shows "sorted_wrt lt (insert_Slice lt x ys)"
  using assms(3)
proof (induction ys)
  case Nil
  show ?case by simp
next
  case (Cons y ys)
  show ?case
  proof (cases "lt x y")
    case True
    then have "\<forall>z \<in> set ys. lt x z" using Cons.prems tr by auto
    then show ?thesis using True Cons.prems by simp
  next
    case False
    then have "lt y x" using tot by blast
    then show ?thesis using False Cons by (auto simp: set_insert_Slice)
  qed
qed

lemma sorted_sort_Slice:
  assumes "\<And>a b c. lt a b \<Longrightarrow> lt b c \<Longrightarrow> lt a c" and "\<And>a b. lt a b \<or> lt b a"
  shows "sorted_wrt lt (sort_Slice lt xs)"
  by (induction xs) (simp_all add: sort_Slice_def sorted_insert_Slice[OF assms])

lemma less_id_trans: "less_id ranks a b \<Longrightarrow> less_id ranks b c \<Longrightarrow> less_id ranks a c"
  by (auto simp: less_id_def Let_def split: if_splits)

lemma less_id_total: "less_id ranks a b \<or> less_id ranks b a"
  by (auto simp: less_id_def Let_def)

lemma less_id_strict: "less_id ranks a b \<Longrightarrow> a \<noteq> b \<Longrightarrow> rank_before ranks a b"
  by (auto simp: less_id_def rank_before_def Let_def split: if_splits)

lemma sorted_wrt_strict:
  "sorted_wrt (less_id ranks) xs \<Longrightarrow> distinct xs \<Longrightarrow> sorted_wrt (rank_before ranks) xs"
  by (induction xs) (auto intro: less_id_strict)

lemma sorted_less_id: "sorted_wrt (less_id ranks) (sort_Slice (less_id ranks) xs)"
proof (rule sorted_sort_Slice)
  show "less_id ranks a b \<Longrightarrow> less_id ranks b c \<Longrightarrow> less_id ranks a c" for a b c
    by (rule less_id_trans)
  show "less_id ranks a b \<or> less_id ranks b a" for a b
    by (rule less_id_total)
qed

lemma rank_before_irrefl: "\<not> rank_before ranks a a"
  by (simp add: rank_before_def)

lemma rank_before_asym: "rank_before ranks a b \<Longrightarrow> \<not> rank_before ranks b a"
  by (auto simp: rank_before_def)

lemma rank_sorted_unique:
  assumes "sorted_wrt (rank_before ranks) xs" "sorted_wrt (rank_before ranks) ys" "set xs = set ys"
  shows "xs = ys"
  using assms
proof (induction xs arbitrary: ys)
  case Nil
  then show ?case by simp
next
  case (Cons x xs)
  then obtain y ys' where ys: "ys = y # ys'" by (cases ys) auto
  have xy: "x = y"
  proof (rule ccontr)
    assume ne: "x \<noteq> y"
    then have "x \<in> set ys'" "y \<in> set xs" using Cons.prems(3) ys by auto
    then have "rank_before ranks y x" "rank_before ranks x y"
      using Cons.prems(1,2) ys by auto
    then show False using rank_before_asym by blast
  qed
  have nx: "x \<notin> set xs" using Cons.prems(1) rank_before_irrefl by auto
  have ny: "y \<notin> set ys'" using Cons.prems(2) ys rank_before_irrefl by auto
  have "set xs = set ys'" using Cons.prems(3) ys xy nx ny by auto
  then have "xs = ys'" using Cons.IH Cons.prems(1,2) ys by simp
  then show ?case using ys xy by simp
qed

lemma walk_mu: "walk (Some (g\<lparr>mu := m\<rparr>)) idList walkFunc s = walk (Some g) idList walkFunc s"
  by (induction idList arbitrary: s) (simp_all add: get_def split: prod.splits option.splits)

lemma Walk_free:
  "\<not> writer (mu g) \<Longrightarrow>
   Walk (Some g) walkFunc ranks iter s
     = Some (walk (Some g) (sort_Slice (less_id ranks) iter) walkFunc s)"
  by (simp add: Walk_def RLock_free RUnlock_held walk_mu Let_def)

lemma walk_stops:
  "walk c pre walkFunc s = (None, s1) \<Longrightarrow> walkFunc (get c i) s1 = (Some e, s2) \<Longrightarrow>
   walk c (pre @ i # post) walkFunc s = (Some e, s2)"
  by (induction pre arbitrary: s) (auto split: prod.splits option.splits)

lemma walk_all:
  "walk c idList (\<lambda>p log. (None, log @ [p])) log0 = (None, log0 @ map (get c) idList)"
  by (induction idList arbitrary: log0) simp_all

lemma sort_iter_four:
  "sort_Slice (less_id [''myapp/'']) iter_four
     = [''myapp/bar'', ''myapp/foo'', ''github.com/x/y'', ''fmt'']"
  by (simp add: sort_Slice_def less_id_def getRank_def HasPrefix_def Let_def iter_four_def)

lemma Add_files_root:
  assumes mu: "mu g = mutex0"
    and keys: "\<forall>i p. idMap g i = Some p \<longrightarrow> id' (pkg p) = i"
    and n: "h a = Some n" and fresh: "idMap g (ID n) = None"
    and run: "Add fs h (Some g) a = Some c'"
  shows "\<exists>g' v. c' = Some g' \<and> mu g' = mutex0 \<and> id' v = ID n \<and> name v = Name n
      \<and> pkgPath v = PkgPath n \<and> files v = CompiledGoFiles n
      \<and> Package_of (idMap g' (ID n)) = Some v \<and> filed g' v"
proof -
  let ?gl = "g\<lparr>mu := \<lparr>writer = True, readers = 0\<rparr>\<rparr>"
  let ?I = "\<lambda>g1. \<forall>i p. idMap g1 i = Some p \<longrightarrow> id' (pkg p) = i"
  from run obtain st where st: "recusiveAdd fs h (Some ?gl) a None = Some st"
    and u: "Unlock (fst st) = Some c'"
    by (auto simp: Add_free[OF mu] split: option.splits)
  have I0: "?I ?gl" using keys by simp
  have step: "?I g3" if "h b = Some m" "?I g0" "idMap g0 (ID m) = None" "?I g2"
      "id' q = ID m" "pkgPath q = PkgPath m" "files q = CompiledGoFiles m"
      "put fs (Some g2) q = Some g3" for g0 g2 q g3 m b
    using that(4) by (auto simp: put_idMap[OF that(8)])
  have "\<exists>n' g' v. h a = Some n'
      \<and> st = (Some g', map_option (set_import (PkgPath n') v) None)
      \<and> ?I g' \<and> mu g' = mu ?gl \<and> id' v = ID n' \<and> Package_of (idMap g' (ID n')) = Some v
      \<and> (idMap ?gl (ID n') = None \<longrightarrow>
            name v = Name n' \<and> pkgPath v = PkgPath n' \<and> files v = CompiledGoFiles n'
            \<and> wired h (map snd (Imports n')) v \<and> filed g' v)"
    by (rule recusiveAdd_partial[where I = ?I, OF _ step st I0]) blast+
  then obtain g1 v where r: "fst st = Some g1" "mu g1 = \<lparr>writer = True, readers = 0\<rparr>"
      "id' v = ID n" "Package_of (idMap g1 (ID n)) = Some v" "name v = Name n"
      "pkgPath v = PkgPath n" "files v = CompiledGoFiles n" "filed g1 v"
    using n fresh by auto
  have c': "c' = Some (g1\<lparr>mu := mutex0\<rparr>)"
    using u r(1,2) by (simp add: unlock_locked)
  have "filed (g1\<lparr>mu := mutex0\<rparr>) v" using r(8) by (simp add: filed_def)
  then show ?thesis
    using c' r by simp
qed

section \<open>Walk\<close>

text \<open>
  C3. Let \<open>iter\<close> be the keys of the id index, each once, in the order in which Go
  yields them, and let no writer hold the lock. \<open>Walk\<close> visits the ids in the order
  \<open>sort_Slice (less_id ranks) iter\<close>: this list has every cached id exactly once, it
  is ordered by ascending rank and within a rank by ascending id (\<open>rank_before\<close>), and
  it is the same for every order \<open>iter\<close>. The rank of an id is the index of the first
  prefix in \<open>ranks\<close> that the id starts with; when it starts with none, the rank is
  \<open>length ranks\<close> if the id contains the character \<open>.\<close> and \<open>length ranks + 1\<close> otherwise.
  A visit function that never fails is handed the unit of every id, in this order,
  each a cached package. When the visits of the ids before \<open>i\<close> return no error and
  the visit of \<open>i\<close> returns the error \<open>e\<close>, \<open>Walk\<close> returns \<open>e\<close> with the state that visit
  left, whatever ids come after \<open>i\<close>. The witness is the spec's example: prefixes
  \<open>myapp/\<close>, ids \<open>myapp/foo\<close>, \<open>myapp/bar\<close>, \<open>github.com/x/y\<close>, \<open>fmt\<close>.
\<close>

theorem Walk_visits_in_rank_order:
  assumes "distinct iter"
    and "set iter = dom (idMap g)"
    and "\<not> writer (mu g)"
  shows "Walk (Some g) walkFunc ranks iter s
        = Some (walk (Some g) (sort_Slice (less_id ranks) iter) walkFunc s)
    \<and> distinct (sort_Slice (less_id ranks) iter)
    \<and> set (sort_Slice (less_id ranks) iter) = dom (idMap g)
    \<and> sorted_wrt (rank_before ranks) (sort_Slice (less_id ranks) iter)
    \<and> (\<forall>iter'. distinct iter' \<and> set iter' = dom (idMap g)
          \<longrightarrow> sort_Slice (less_id ranks) iter' = sort_Slice (less_id ranks) iter)
    \<and> (\<forall>pre r post ident. ranks = pre @ r # post \<and> (\<forall>x \<in> set pre. \<not> prefix x ident)
          \<and> prefix r ident \<longrightarrow> getRank ranks ident = length pre)
    \<and> (\<forall>ident. (\<forall>x \<in> set ranks. \<not> prefix x ident) \<longrightarrow>
          getRank ranks ident = (if CHR ''.'' \<in> set ident then length ranks else length ranks + 1))
    \<and> Walk (Some g) (\<lambda>p log. (None, log @ [p])) ranks iter []
        = Some (None, map (get (Some g)) (sort_Slice (less_id ranks) iter))
    \<and> list_all (\<lambda>i. get (Some g) i \<noteq> None) (sort_Slice (less_id ranks) iter)
    \<and> (\<forall>pre i post e s1 s2. sort_Slice (less_id ranks) iter = pre @ i # post
          \<and> walk (Some g) pre walkFunc s = (None, s1)
          \<and> walkFunc (get (Some g) i) s1 = (Some e, s2)
          \<longrightarrow> Walk (Some g) walkFunc ranks iter s = Some (Some e, s2))"
proof -
  let ?xs = "sort_Slice (less_id ranks) iter"
  have W: "Walk (Some g) f ranks iter t = Some (walk (Some g) ?xs f t)" for f t
    by (rule Walk_free[OF assms(3)])
  have d: "distinct ?xs" by (simp add: distinct_sort_Slice assms(1))
  have st: "set ?xs = dom (idMap g)" by (simp add: set_sort_Slice assms(2))
  have so: "sorted_wrt (rank_before ranks) xs'"
    if "xs' = sort_Slice (less_id ranks) it" "distinct it" for xs' it
    unfolding that(1)
    by (rule sorted_wrt_strict[OF sorted_less_id]) (simp add: distinct_sort_Slice that(2))
  have un: "sort_Slice (less_id ranks) iter' = ?xs"
    if "distinct iter'" "set iter' = dom (idMap g)" for iter'
    by (rule rank_sorted_unique[OF so[OF refl that(1)] so[OF refl assms(1)]])
       (simp add: set_sort_Slice that(2) assms(2))
  have r1: "getRank ranks ident = length pre"
    if "ranks = pre @ r # post" "\<forall>x \<in> set pre. \<not> prefix x ident" "prefix r ident"
    for pre r post ident
    using getRank_from_match[OF that(2,3), of 0 post] that(1) by (simp add: getRank_def)
  have r2: "getRank ranks ident = (if CHR ''.'' \<in> set ident then length ranks else length ranks + 1)"
    if "\<forall>x \<in> set ranks. \<not> prefix x ident" for ident
    using getRank_from_nomatch[OF that, of 0] by (simp add: getRank_def)
  have all: "Walk (Some g) (\<lambda>p log. (None, log @ [p])) ranks iter [] = Some (None, map (get (Some g)) ?xs)"
    using walk_all[of "Some g" ?xs "[]"] by (simp add: W)
  have ne: "list_all (\<lambda>i. get (Some g) i \<noteq> None) ?xs"
    using st by (auto simp: list_all_iff get_def Package_of_def split: option.splits)
  have stop: "Walk (Some g) walkFunc ranks iter s = Some (Some e, s2)"
    if "?xs = pre @ i # post" "walk (Some g) pre walkFunc s = (None, s1)"
      "walkFunc (get (Some g) i) s1 = (Some e, s2)" for pre i post e s1 s2
    using walk_stops[OF that(2,3), of post] that(1) by (simp add: W)
  show ?thesis
    using W[of walkFunc s] d st so[OF refl assms(1)] un r1 r2 all ne stop
    by (intro conjI allI impI) (blast+)?
qed

theorem Walk_visits_in_rank_order_witness:
  "(distinct iter_four \<and> set iter_four = dom (idMap cache_four) \<and> \<not> writer (mu cache_four))
   \<and> Walk (Some cache_four) (\<lambda>p log. (None, log @ [p])) [''myapp/''] iter_four []
        = Some (None, [Some pkg_bar, Some pkg_foo, Some pkg_xy, Some pkg_fmt])"
proof -
  have h1: "distinct iter_four"
    by (simp add: iter_four_def)
  have h2: "set iter_four = dom (idMap cache_four)"
    by (auto simp: iter_four_def cache_four_def)
  have h3: "\<not> writer (mu cache_four)"
    by (simp add: cache_four_def mutex0_def)
  have g: "map (get (Some cache_four)) [''myapp/bar'', ''myapp/foo'', ''github.com/x/y'', ''fmt'']
      = [Some pkg_bar, Some pkg_foo, Some pkg_xy, Some pkg_fmt]"
    by (simp add: get_def cache_four_def Package_of_def)
  from Walk_visits_in_rank_order[OF h1 h2 h3, of "\<lambda>p log. (None, log @ [p])" "[''myapp/'']"]
  have "Walk (Some cache_four) (\<lambda>p log. (None, log @ [p])) [''myapp/''] iter_four []
      = Some (None, map (get (Some cache_four)) (sort_Slice (less_id [''myapp/'']) iter_four))"
    by blast
  then have "Walk (Some cache_four) (\<lambda>p log. (None, log @ [p])) [''myapp/''] iter_four []
        = Some (None, [Some pkg_bar, Some pkg_foo, Some pkg_xy, Some pkg_fmt])"
    unfolding sort_iter_four g .
  with h1 h2 h3 show ?thesis by blast
qed

subsection \<open>Handle, gate by gate\<close>

lemma Handle_exit_ready:
  assumes "Method req = ''exit''" "init h \<noteq> None" "\<not> shutdown h"
  shows "Handle e h conn req =
     ((None, None),
      (if cancel h \<noteq> None \<and> \<not> Notif req
       then h\<lparr>cancel := map_option (\<lambda>reg. cancel_done reg (ID' req))
               (map_option (\<lambda>reg. WithCancel reg (ID' req)) (cancel h))\<rparr>
       else h),
      Close conn)"
proof -
  from assms(2) obtain p where p: "init h = Some p" by auto
  show ?thesis
    using assms(1,3) p
    by (simp add: Handle_def CheckReady_def dispatch_def Let_def)
qed






section \<open>Lookups that find nothing\<close>

text \<open>
  C10. On a cache that is not \<open>nil\<close> and whose lock no writer holds, looking up a file
  path that the file index does not have returns \<open>nil\<close> from \<open>GetByURI\<close>, and an id that
  the id index does not have returns \<open>nil\<close> from \<open>get\<close> (the lookup \<open>Walk\<close> uses): the
  \<open>nil\<close> entry read from the map goes through \<open>Package()\<close>, which answers \<open>nil\<close> for a
  \<open>nil\<close> receiver, and \<open>ModTime()\<close> of that entry is the zero time.
\<close>

theorem absent_lookup_returns_nil:
  assumes "\<not> writer (mu g)"
    and "fileMap g (LowerDriver filename) = None"
    and "idMap g i = None"
  shows "GetByURI (Some g) filename = Some None
    \<and> get (Some g) i = None
    \<and> Package_of (fileMap g (LowerDriver filename)) = None
    \<and> Package_of (idMap g i) = None
    \<and> ModTime (fileMap g (LowerDriver filename)) = zeroTime
    \<and> ModTime (idMap g i) = zeroTime"
  using assms
  by (simp add: GetByURI_def get_def RLock_free RUnlock_held Package_of_def ModTime_def)

theorem absent_lookup_returns_nil_witness:
  "(\<not> writer (mu cache_a)
    \<and> fileMap cache_a (LowerDriver ''B.go'') = None
    \<and> idMap cache_a ''b'' = None)
   \<and> (GetByURI (Some cache_a) ''B.go'' = Some None
    \<and> get (Some cache_a) ''b'' = None
    \<and> Package_of (fileMap cache_a (LowerDriver ''B.go'')) = None
    \<and> Package_of (idMap cache_a ''b'') = None
    \<and> ModTime (fileMap cache_a (LowerDriver ''B.go'')) = zeroTime
    \<and> ModTime (idMap cache_a ''b'') = zeroTime)"
proof -
  have h1: "\<not> writer (mu cache_a)"
    by (simp add: cache_a_def mutex0_def)
  have h2: "fileMap cache_a (LowerDriver ''B.go'') = None"
    by (simp add: cache_a_def LowerDriver_def toLower_def)
  have h3: "idMap cache_a ''b'' = None"
    by (simp add: cache_a_def)
  show ?thesis
    by (intro conjI h1 h2 h3 absent_lookup_returns_nil[OF h1 h2 h3, THEN conjunct1]
        absent_lookup_returns_nil[OF h1 h2 h3, THEN conjunct2, THEN conjunct1]
        absent_lookup_returns_nil[OF h1 h2 h3, THEN conjunct2, THEN conjunct2])
qed

section \<open>The nil cache and the empty cache\<close>


section \<open>Lookup by file name\<close>

text \<open>
  C6. \<open>GetByURI\<close> does not distinguish letter case. Let the query path be equal to the
  file path \<open>f\<close> after lower-casing. When \<open>Put\<close> stores a unit \<open>q\<close> that has the file \<open>f\<close>,
  \<open>GetByURI\<close> of the query returns \<open>q\<close>. When \<open>Add\<close> ingests a graph whose root has the
  file \<open>f\<close> and an id that is not cached, and returns, \<open>GetByURI\<close> of the query returns
  the unit stored for the root. \<open>put\<close> files a unit under \<open>LowerDriver\<close> of each of its
  files and \<open>GetByURI\<close> looks up \<open>LowerDriver\<close> of the query. The witness stores a unit
  with the file \<open>/Src/a.go\<close> and asks for \<open>/src/A.GO\<close>.
\<close>

theorem GetByURI_ignores_case:
  assumes "mu g = mutex0"
    and "map toLower query = map toLower f"
  shows "(f \<in> set (files q) \<longrightarrow>
            Put fs (Some g) q \<bind> (\<lambda>c'. GetByURI c' query) = Some (Some q))
    \<and> (\<forall>c'. (\<forall>i p. idMap g i = Some p \<longrightarrow> id' (pkg p) = i)
            \<and> h a = Some n \<and> idMap g (ID n) = None \<and> f \<in> set (CompiledGoFiles n)
            \<and> Add fs h (Some g) a = Some c'
          \<longrightarrow> (\<exists>v. GetByURI c' query = Some (Some v) \<and> get c' (ID n) = Some v
                \<and> id' v = ID n \<and> pkgPath v = PkgPath n \<and> files v = CompiledGoFiles n))"
proof -
  have l: "LowerDriver query = LowerDriver f"
    using assms(2) by (simp add: LowerDriver_def)
  have 1: "Put fs (Some g) q \<bind> (\<lambda>c'. GetByURI c' query) = Some (Some q)" if "f \<in> set (files q)"
  proof -
    obtain g' where g': "Put fs (Some g) q = Some (Some g')" "mu g' = mutex0"
      "\<forall>f \<in> set (files q). fileMap g' (LowerDriver f)
          = Some \<lparr>pkg = q, modTime = getPackageModTime fs (Some q)\<rparr>"
      using Put_free[OF assms(1), of fs q] by blast
    have "fileMap g' (LowerDriver query) = Some \<lparr>pkg = q, modTime = getPackageModTime fs (Some q)\<rparr>"
      using g'(3) that l by simp
    then have "GetByURI (Some g') query = Some (Some q)"
      using g'(2) by (simp add: GetByURI_free mutex0_def Package_of_def)
    then show ?thesis using g'(1) by simp
  qed
  have 2: "\<exists>v. GetByURI c' query = Some (Some v) \<and> get c' (ID n) = Some v
                \<and> id' v = ID n \<and> pkgPath v = PkgPath n \<and> files v = CompiledGoFiles n"
    if "\<forall>i p. idMap g i = Some p \<longrightarrow> id' (pkg p) = i" "h a = Some n" "idMap g (ID n) = None"
      "f \<in> set (CompiledGoFiles n)" "Add fs h (Some g) a = Some c'" for c'
  proof -
    from Add_files_root[OF assms(1) that(1,2,3,5)]
    obtain g' v where r: "c' = Some g'" "mu g' = mutex0" "id' v = ID n"
      "pkgPath v = PkgPath n" "files v = CompiledGoFiles n"
      "Package_of (idMap g' (ID n)) = Some v" "filed g' v"
      by blast
    have "Package_of (fileMap g' (LowerDriver query)) = Some v"
      using r(5,7) that(4) l by (simp add: filed_def)
    then have "GetByURI c' query = Some (Some v)"
      using r(1,2) by (simp add: GetByURI_free mutex0_def)
    moreover have "get c' (ID n) = Some v"
      using r(1,6) by (simp add: get_def)
    ultimately show ?thesis using r(3,4,5) by blast
  qed
  show ?thesis using 1 2 by blast
qed

theorem GetByURI_ignores_case_witness:
  "(mu cache_a = mutex0 \<and> mu cache_empty = mutex0
    \<and> map toLower ''/src/A.GO'' = map toLower ''/Src/a.go'')
   \<and> Put fs_none (Some cache_a) pkg_src \<bind> (\<lambda>c'. GetByURI c' ''/src/A.GO'') = Some (Some pkg_src)
   \<and> (\<exists>c' v. Add fs_none heap_src (Some cache_empty) 0 = Some c'
         \<and> GetByURI c' ''/src/A.GO'' = Some (Some v)
         \<and> id' v = ''src'' \<and> files v = [''/Src/a.go''])"
proof -
  have h1: "mu cache_a = mutex0"
    by (simp add: cache_a_def)
  have h1': "mu cache_empty = mutex0"
    by (simp add: cache_empty_def)
  have h2: "''/Src/a.go'' \<in> set (files pkg_src)"
    by (simp add: pkg_src_def)
  have h3: "map toLower ''/src/A.GO'' = map toLower ''/Src/a.go''"
    by (simp add: toLower_def)
  have p: "Put fs_none (Some cache_a) pkg_src \<bind> (\<lambda>c'. GetByURI c' ''/src/A.GO'') = Some (Some pkg_src)"
    using GetByURI_ignores_case[OF h1 h3, of pkg_src fs_none] h2 by blast
  have rk: "ranked heap_src (\<lambda>_. 0)"
    by (simp add: ranked_def heap_src_def node_src_def)
  have n: "heap_src 0 = Some node_src" by (simp add: heap_src_def)
  obtain g' where g': "Add fs_none heap_src (Some cache_empty) 0 = Some (Some g')"
    using Add_returns[OF rk n h1', of fs_none] by blast
  have k: "\<forall>i p. idMap cache_empty i = Some p \<longrightarrow> id' (pkg p) = i"
    by (simp add: cache_empty_def)
  have e: "idMap cache_empty (ID node_src) = None" by (simp add: cache_empty_def)
  have f: "''/Src/a.go'' \<in> set (CompiledGoFiles node_src)" by (simp add: node_src_def)
  from GetByURI_ignores_case[OF h1' h3, of _ fs_none heap_src 0 node_src] k n e f g'
  obtain v where "GetByURI (Some g') ''/src/A.GO'' = Some (Some v)" "id' v = ID node_src"
    "files v = CompiledGoFiles node_src"
    by blast
  then have "\<exists>c' v. Add fs_none heap_src (Some cache_empty) 0 = Some c'
         \<and> GetByURI c' ''/src/A.GO'' = Some (Some v)
         \<and> id' v = ''src'' \<and> files v = [''/Src/a.go'']"
    using g' by (auto simp: node_src_def)
  with h1 h1' h3 p show ?thesis by blast
qed


section \<open>The cache and the file system\<close>

text \<open>
  C7, as the claim states it, fails: \<open>put\<close> calls \<open>getPackageModTime\<close>, which calls
  \<open>os.Stat\<close> on the first file of the unit. The same \<open>put\<close> of the same unit into the
  same cache stores the time 7 under a file system that has \<open>a.go\<close> and the zero time
  under one that has not, so the two caches differ.
\<close>

theorem put_depends_on_file_system:
  "getPackageModTime fs_a (Some pkg_a) = 7
   \<and> getPackageModTime fs_none (Some pkg_a) = zeroTime
   \<and> put fs_a NewCache pkg_a \<noteq> put fs_none NewCache pkg_a"
proof -
  have t1: "getPackageModTime fs_a (Some pkg_a) = 7"
    by (simp add: getPackageModTime_def pkg_a_def fs_a_def)
  have t2: "getPackageModTime fs_none (Some pkg_a) = zeroTime"
    by (simp add: getPackageModTime_def pkg_a_def fs_none_def)
  obtain g1 where g1: "put fs_a NewCache pkg_a = Some g1"
    "idMap g1 (id' pkg_a) = Some \<lparr>pkg = pkg_a, modTime = getPackageModTime fs_a (Some pkg_a)\<rparr>"
    unfolding NewCache_def using put_Some_ex by blast
  obtain g2 where g2: "put fs_none NewCache pkg_a = Some g2"
    "idMap g2 (id' pkg_a) = Some \<lparr>pkg = pkg_a, modTime = getPackageModTime fs_none (Some pkg_a)\<rparr>"
    unfolding NewCache_def using put_Some_ex by blast
  have "g1 \<noteq> g2"
    using g1(2) g2(2) by (auto simp: t1 t2 zeroTime_def)
  then show ?thesis
    by (simp add: t1 t2 g1(1) g2(1))
qed

text \<open>
  C7, amended. The file system is read at ingestion, by \<open>put\<close> and so by \<open>Put\<close>, through
  one \<open>os.Stat\<close> of the first member file of the unit stored: two file systems that
  agree on that path (or any two, when the unit has no files) give the same cache.
  The time recorded is the modification time of that file, or the zero time when
  the unit has no files or \<open>os.Stat\<close> fails, and \<open>Get\<close> serves it as recorded. \<open>Get\<close>,
  \<open>GetByURI\<close>, \<open>Delete\<close>, \<open>clean\<close> and \<open>Walk\<close> take no file system.
\<close>

theorem put_reads_first_file_only:
  assumes "\<And>dir rest. files q = dir # rest \<Longrightarrow> fs dir = fs' dir"
    and "mu g = mutex0"
  shows "put fs c q = put fs' c q
    \<and> Put fs c q = Put fs' c q
    \<and> getPackageModTime fs (Some q) =
        (case files q of [] \<Rightarrow> zeroTime
         | dir # _ \<Rightarrow> (case fs dir of None \<Rightarrow> zeroTime | Some t \<Rightarrow> t))
    \<and> Put fs (Some g) q \<bind> (\<lambda>c'. Get c' (pkgPath q))
        = Some (Some \<lparr>pkg = q, modTime = getPackageModTime fs (Some q)\<rparr>)"
proof -
  have t: "getPackageModTime fs (Some q) = getPackageModTime fs' (Some q)"
    using assms(1) by (cases "files q") (simp_all add: getPackageModTime_def)
  have p: "put fs c q = put fs' c q" for c
    unfolding put_def t by (rule refl)
  have P: "Put fs c q = Put fs' c q"
    unfolding Put_def p by (rule refl)
  obtain g' where g': "Put fs (Some g) q = Some (Some g')" "mu g' = mutex0"
     "pathMap g' (pkgPath q) = Some \<lparr>pkg = q, modTime = getPackageModTime fs (Some q)\<rparr>"
    using Put_free[OF assms(2), of fs q] by blast
  have "Get (Some g') (pkgPath q) = Some (Some \<lparr>pkg = q, modTime = getPackageModTime fs (Some q)\<rparr>)"
    using g'(2,3) by (simp add: Get_free mutex0_def)
  then show ?thesis
    using p P g'(1) by (simp add: getPackageModTime_def)
qed

theorem put_reads_first_file_only_witness:
  "mu cache_a = mutex0
   \<and> put fs_a (Some cache_a) pkg_a = put fs_ab (Some cache_a) pkg_a
   \<and> Put fs_a (Some cache_a) pkg_a = Put fs_ab (Some cache_a) pkg_a
   \<and> getPackageModTime fs_a (Some pkg_a) =
        (case files pkg_a of [] \<Rightarrow> zeroTime
         | dir # _ \<Rightarrow> (case fs_a dir of None \<Rightarrow> zeroTime | Some t \<Rightarrow> t))
   \<and> Put fs_a (Some cache_a) pkg_a \<bind> (\<lambda>c'. Get c' (pkgPath pkg_a))
        = Some (Some \<lparr>pkg = pkg_a, modTime = getPackageModTime fs_a (Some pkg_a)\<rparr>)"
proof -
  have h1: "files pkg_a = dir # rest \<Longrightarrow> fs_a dir = fs_ab dir" for dir rest
    by (auto simp: pkg_a_def fs_a_def fs_ab_def)
  have h2: "mu cache_a = mutex0"
    by (simp add: cache_a_def)
  show ?thesis
    by (intro conjI h2 put_reads_first_file_only[OF h1 h2, where c = "Some cache_a", THEN conjunct1]
        put_reads_first_file_only[OF h1 h2, where c = "Some cache_a", THEN conjunct2, THEN conjunct1]
        put_reads_first_file_only[OF h1 h2, where c = "Some cache_a", THEN conjunct2, THEN conjunct2])
qed

section \<open>The three indices\<close>





section \<open>Ingestion\<close>





section \<open>The lifecycle gates of the handler\<close>

text \<open>
  C4, as the claim states it, fails. \<open>Handle\<close> tests \<open>h.init == nil\<close> before anything else
  and exempts only \<open>initialize\<close>: an \<open>exit\<close> sent before \<open>initialize\<close> is answered with
  \<open>errLanguageServerMustBeInitialized\<close>. After \<open>shutdown\<close>, \<open>CheckReady\<close> fails, the error is
  dropped for \<open>exit\<close> and \<open>Handle\<close> returns there, before the \<open>switch\<close>: the connection
  is not closed.
\<close>

theorem exit_rejected_before_initialize:
  "Handle ext_ok server_new (JsonConn False) req_exit
     = ((None, Some errLanguageServerMustBeInitialized), server_new, JsonConn False)
   \<and> Handle ext_ok server_down (JsonConn False) req_exit
     = ((None, None), server_down, JsonConn False)"
  by (simp add: Handle_def req_exit_def server_new_def server_down_def CheckReady_def)

text \<open>
  C4, amended. An \<open>exit\<close> message is answered by the state it meets. Before
  \<open>initialize\<close> it is rejected with \<open>errLanguageServerMustBeInitialized\<close> and nothing
  changes. After \<open>initialize\<close> it is never rejected: after \<open>shutdown\<close> it returns
  \<open>nil, nil\<close> and leaves handler and connection as they are; before \<open>shutdown\<close> it
  returns \<open>nil, nil\<close> and closes the connection, when that is a \<open>*jsonrpc2.Conn\<close>.
\<close>

theorem exit_by_lifecycle_state:
  assumes "Method req = ''exit''"
  shows "(init h = None \<longrightarrow>
            Handle e h conn req = ((None, Some errLanguageServerMustBeInitialized), h, conn))
    \<and> (init h \<noteq> None \<and> shutdown h \<longrightarrow> Handle e h conn req = ((None, None), h, conn))
    \<and> (init h \<noteq> None \<and> \<not> shutdown h \<longrightarrow>
            fst (Handle e h conn req) = (None, None)
            \<and> snd (snd (Handle e h conn req)) = Close conn
            \<and> init (fst (snd (Handle e h conn req))) = init h
            \<and> shutdown (fst (snd (Handle e h conn req))) = shutdown h)
    \<and> Close (JsonConn b) = JsonConn True
    \<and> Close OtherConn = OtherConn"
proof -
  have 1: "Handle e h conn req = ((None, Some errLanguageServerMustBeInitialized), h, conn)"
    if "init h = None"
    using assms that by (simp add: Handle_def)
  have 2: "Handle e h conn req = ((None, None), h, conn)" if "init h \<noteq> None" "shutdown h"
  proof -
    from that(1) obtain p where p: "init h = Some p" by auto
    show ?thesis
      using assms that(2) p by (simp add: Handle_def CheckReady_def)
  qed
  have 3: "fst (Handle e h conn req) = (None, None)
            \<and> snd (snd (Handle e h conn req)) = Close conn
            \<and> init (fst (snd (Handle e h conn req))) = init h
            \<and> shutdown (fst (snd (Handle e h conn req))) = shutdown h"
    if "init h \<noteq> None" "\<not> shutdown h"
    by (simp add: Handle_exit_ready[OF assms that])
  show ?thesis
    using 1 2 3 by (simp add: Close_def)
qed

theorem exit_by_lifecycle_state_witness:
  "Method req_exit = ''exit''
   \<and> Handle ext_ok server_new (JsonConn False) req_exit
        = ((None, Some errLanguageServerMustBeInitialized), server_new, JsonConn False)
   \<and> Handle ext_ok server_down (JsonConn False) req_exit
        = ((None, None), server_down, JsonConn False)
   \<and> fst (Handle ext_ok server_ready (JsonConn False) req_exit) = (None, None)
   \<and> snd (snd (Handle ext_ok server_ready (JsonConn False) req_exit)) = JsonConn True"
proof -
  have m: "Method req_exit = ''exit''" by (simp add: req_exit_def)
  have a: "init server_new = None" by (simp add: server_new_def)
  have b: "init server_down \<noteq> None \<and> shutdown server_down" by (simp add: server_down_def)
  have c: "init server_ready \<noteq> None \<and> \<not> shutdown server_ready" by (simp add: server_ready_def)
  note t = exit_by_lifecycle_state[OF m, of _ ext_ok "JsonConn False" False]
  have 1: "Handle ext_ok server_new (JsonConn False) req_exit
        = ((None, Some errLanguageServerMustBeInitialized), server_new, JsonConn False)"
    using t[of server_new] a by blast
  have 2: "Handle ext_ok server_down (JsonConn False) req_exit
        = ((None, None), server_down, JsonConn False)"
    using t[of server_down] b by blast
  have 3: "fst (Handle ext_ok server_ready (JsonConn False) req_exit) = (None, None)
      \<and> snd (snd (Handle ext_ok server_ready (JsonConn False) req_exit)) = Close (JsonConn False)"
    using t[of server_ready] c by blast
  have 4: "Close (JsonConn False) = JsonConn True"
    using t[of server_ready] by blast
  show ?thesis
    using m 1 2 3 4 by simp
qed

text \<open>
  C5, as the claim states it, fails. The first \<open>shutdown\<close> sets the flag; from then on
  \<open>CheckReady\<close> fails and \<open>Handle\<close> drops its error for \<open>exit\<close> alone, so a second
  \<open>shutdown\<close> request is answered with \<open>errLanguageServerIsShuttingDown\<close> and never
  reaches \<open>ShutDown\<close>.
\<close>

theorem second_shutdown_is_rejected:
  "Handle ext_ok server_ready (JsonConn False) req_shutdown
     = ((None, None), server_down, JsonConn False)
   \<and> Handle ext_ok server_down (JsonConn False) req_shutdown
     = ((None, Some errLanguageServerIsShuttingDown), server_down, JsonConn False)"
  by (simp add: Handle_def dispatch_def ShutDown_def CheckReady_def Let_def WithCancel_def
      cancel_done_def req_shutdown_def server_ready_def server_down_def)

text \<open>
  C5, amended. On an initialised server a \<open>shutdown\<close> request that meets the flag unset
  returns \<open>nil, nil\<close>, sets the flag and logs nothing; one that meets the flag set is
  rejected with \<open>errLanguageServerIsShuttingDown\<close> and changes nothing. The method
  \<open>ShutDown\<close> itself may be repeated: a second call leaves the flag set and only
  logs \<open>errLanguageServerAlreadyShutdown\<close>.
\<close>

theorem shutdown_then_gate:
  assumes "Method req = ''shutdown''"
    and "init h \<noteq> None"
  shows "(\<not> shutdown h \<longrightarrow>
            fst (Handle e h conn req) = (None, None)
            \<and> shutdown (fst (snd (Handle e h conn req)))
            \<and> logged (fst (snd (Handle e h conn req))) = logged h
            \<and> snd (snd (Handle e h conn req)) = conn)
    \<and> (shutdown h \<longrightarrow>
            Handle e h conn req = ((None, Some errLanguageServerIsShuttingDown), h, conn))
    \<and> shutdown (ShutDown h)
    \<and> ShutDown (ShutDown h)
         = (ShutDown h)\<lparr>logged := logged (ShutDown h) @ [errLanguageServerAlreadyShutdown]\<rparr>"
proof -
  from assms(2) obtain p where p: "init h = Some p" by auto
  have 1: "fst (Handle e h conn req) = (None, None)
            \<and> shutdown (fst (snd (Handle e h conn req)))
            \<and> logged (fst (snd (Handle e h conn req))) = logged h
            \<and> snd (snd (Handle e h conn req)) = conn" if "\<not> shutdown h"
    using assms(1) p that
    by (simp add: Handle_def dispatch_def ShutDown_def CheckReady_def Let_def)
  have 2: "Handle e h conn req = ((None, Some errLanguageServerIsShuttingDown), h, conn)"
    if "shutdown h"
    using assms(1) p that by (simp add: Handle_def CheckReady_def)
  have 3: "shutdown (ShutDown h)"
    by (simp add: ShutDown_def Let_def)
  have 4: "ShutDown (ShutDown h)
         = (ShutDown h)\<lparr>logged := logged (ShutDown h) @ [errLanguageServerAlreadyShutdown]\<rparr>"
    by (simp add: ShutDown_def Let_def)
  show ?thesis using 1 2 3 4 by blast
qed

theorem shutdown_then_gate_witness:
  "(Method req_shutdown = ''shutdown'' \<and> init server_ready \<noteq> None \<and> init server_down \<noteq> None)
   \<and> fst (Handle ext_ok server_ready (JsonConn False) req_shutdown) = (None, None)
   \<and> shutdown (fst (snd (Handle ext_ok server_ready (JsonConn False) req_shutdown)))
   \<and> Handle ext_ok server_down (JsonConn False) req_shutdown
        = ((None, Some errLanguageServerIsShuttingDown), server_down, JsonConn False)"
proof -
  have m: "Method req_shutdown = ''shutdown''" by (simp add: req_shutdown_def)
  have a: "init server_ready \<noteq> None" by (simp add: server_ready_def)
  have b: "init server_down \<noteq> None" by (simp add: server_down_def)
  have na: "\<not> shutdown server_ready" by (simp add: server_ready_def)
  have sb: "shutdown server_down" by (simp add: server_down_def)
  have 1: "fst (Handle ext_ok server_ready (JsonConn False) req_shutdown) = (None, None)
      \<and> shutdown (fst (snd (Handle ext_ok server_ready (JsonConn False) req_shutdown)))"
    using shutdown_then_gate[OF m a, of ext_ok "JsonConn False"] na by blast
  have 2: "Handle ext_ok server_down (JsonConn False) req_shutdown
        = ((None, Some errLanguageServerIsShuttingDown), server_down, JsonConn False)"
    using shutdown_then_gate[OF m b, of ext_ok "JsonConn False"] sb by blast
  show ?thesis using m a b 1 2 by blast
qed

section \<open>Panics stop at Handle\<close>



end
